theory Spec2Isabelle
  imports Main
begin

section \<open>The relational store\<close>

text \<open>
  The tables of the initial schema that the reservation code reads and writes. A table is
  the list of its rows. Timestamps are milliseconds since the epoch; a nullable column is
  an \<open>option\<close>. The serial column \<open>bookings.booking_id\<close> draws from a sequence
  whose last value is \<open>seq_bookings\<close>. Each handler is run alone, from one committed state
  to the next. A statement of the relational store fails only by the constraint it violates
  or by a parameter that does not fit its column; the round trips that can fail at any time
  are those of the lock store.
\<close>

datatype seat_status = AVAILABLE | LOCKED | BOOKED

datatype booking_status = PENDING | CONFIRMED | CANCELLED

record seats_row =
  st_seat_id :: nat
  st_venue_id :: nat
  st_seat_row :: string
  st_seat_number :: nat

record shows_row =
  sh_show_id :: nat
  sh_venue_id :: nat

record bookings_row =
  bk_booking_id :: nat
  bk_user_id :: nat
  bk_show_id :: nat
  bk_status :: booking_status
  bk_created_at :: "int option"

record show_seats_row =
  ss_show_id :: nat
  ss_seat_id :: nat
  ss_status :: seat_status
  ss_booking_id :: "nat option"
  ss_locked_at :: "int option"

record database =
  tbl_shows :: "shows_row list"
  tbl_seats :: "seats_row list"
  tbl_bookings :: "bookings_row list"
  tbl_show_seats :: "show_seats_row list"
  seq_bookings :: nat

text \<open>
  A transaction works on a copy \<open>tx\<close> of the committed state \<open>db\<close>. COMMIT makes
  the copy the committed state; ROLLBACK discards the copy's rows, but a value drawn from
  the sequence stays drawn.
\<close>

definition commit :: "database \<Rightarrow> database \<Rightarrow> database" where
  "commit db tx = tx"

definition rollback :: "database \<Rightarrow> database \<Rightarrow> database" where
  "rollback db tx = db\<lparr>seq_bookings := seq_bookings tx\<rparr>"

datatype exn = RedisError | UniqueViolation | CardinalityViolation | OutOfRange

text \<open>
  The id columns and the sequence are of type integer (int4), and the request schema puts no
  upper bound on an id. A statement that binds a request parameter above 2147483647 to
  such a column throws (value out of range for type integer).
\<close>

definition int4_max :: nat where
  "int4_max = 2147483647"

definition in_int4 :: "nat \<Rightarrow> bool" where
  "in_int4 n = (n \<le> int4_max)"

section \<open>The lock store\<close>

text \<open>
  The keys the code builds by string interpolation, one constructor per prefix.
  A value \<open>Num n\<close> is the decimal string of \<open>n\<close>; \<open>Str s\<close> is a string that
  \<open>parseInt\<close> maps to NaN, as the tokens \<open>token_...\<close> and the flag \<open>true\<close> are.
  The key \<open>can_proceed:${token}\<close> is indexed by the value it is built from.
  Every entry carries its time to live in seconds, if one was set. The waiting-room queue
  lives in the same store. \<open>faults\<close> is the schedule of round-trip failures: each
  operation consumes the head, and throws when it is \<open>True\<close>.
\<close>

datatype redis_val = Num int | Str string

datatype redis_key =
    SeatLock nat nat
  | RateLimit string
  | WaitingRoom string
  | CanProceed redis_val
  | ShowDemand string
  | SystemLoad

record job =
  job_token :: string
  job_clientId :: string
  job_timestamp :: int
  job_delay :: nat
  job_priority :: nat

record lock_store =
  kv :: "redis_key \<rightharpoonup> (redis_val \<times> nat option)"
  q_waiting :: "job list"
  q_delayed :: "job list"
  faults :: "bool list"

definition tick :: "lock_store \<Rightarrow> bool \<times> lock_store" where
  "tick r = (case faults r of [] \<Rightarrow> (False, r) | f # fs \<Rightarrow> (f, r\<lparr>faults := fs\<rparr>))"

definition redis_get :: "redis_key \<Rightarrow> lock_store \<Rightarrow> (exn + redis_val option) \<times> lock_store" where
  "redis_get k r =
     (case tick r of
        (True, r') \<Rightarrow> (Inl RedisError, r')
      | (False, r') \<Rightarrow> (Inr (map_option fst (kv r' k)), r'))"

text \<open>\<open>SET key value EX ttl NX\<close>: \<open>True\<close> is the reply OK, \<open>False\<close> the null reply.\<close>

definition redis_set_ex_nx ::
  "redis_key \<Rightarrow> redis_val \<Rightarrow> nat \<Rightarrow> lock_store \<Rightarrow> (exn + bool) \<times> lock_store" where
  "redis_set_ex_nx k v ttl r =
     (case tick r of
        (True, r') \<Rightarrow> (Inl RedisError, r')
      | (False, r') \<Rightarrow>
          (if kv r' k = None then (Inr True, r'\<lparr>kv := (kv r')(k \<mapsto> (v, Some ttl))\<rparr>)
           else (Inr False, r')))"

definition redis_setex ::
  "redis_key \<Rightarrow> nat \<Rightarrow> redis_val \<Rightarrow> lock_store \<Rightarrow> (exn + unit) \<times> lock_store" where
  "redis_setex k ttl v r =
     (case tick r of
        (True, r') \<Rightarrow> (Inl RedisError, r')
      | (False, r') \<Rightarrow> (Inr (), r'\<lparr>kv := (kv r')(k \<mapsto> (v, Some ttl))\<rparr>))"

text \<open>\<open>DEL key [key ...]\<close> is one round trip, whatever the number of keys.\<close>

definition redis_del :: "redis_key list \<Rightarrow> lock_store \<Rightarrow> (exn + unit) \<times> lock_store" where
  "redis_del ks r =
     (case tick r of
        (True, r') \<Rightarrow> (Inl RedisError, r')
      | (False, r') \<Rightarrow> (Inr (), r'\<lparr>kv := (\<lambda>k. if k \<in> set ks then None else kv r' k)\<rparr>))"

section \<open>Responses\<close>

datatype response =
    At_Least_One_Seat
  | Show_Not_Found
  | Seats_Unavailable "nat list"
  | Invalid_Seat_IDs "nat list"
  | Seats_Locked nat "seats_row list" nat
  | Failed
  | Booking_Not_Found
  | Not_Pending
  | No_Locked_Seats
  | Locks_Expired "nat list"
  | Booking_Confirmed nat "seats_row list"
  | Already_Cancelled
  | Booking_Cancelled nat "seats_row list"

fun http_status :: "response \<Rightarrow> nat" where
  "http_status At_Least_One_Seat = 400"
| "http_status Show_Not_Found = 404"
| "http_status (Seats_Unavailable _) = 409"
| "http_status (Invalid_Seat_IDs _) = 400"
| "http_status (Seats_Locked _ _ _) = 200"
| "http_status Failed = 500"
| "http_status Booking_Not_Found = 404"
| "http_status Not_Pending = 400"
| "http_status No_Locked_Seats = 400"
| "http_status (Locks_Expired _) = 410"
| "http_status (Booking_Confirmed _ _) = 200"
| "http_status Already_Cancelled = 400"
| "http_status (Booking_Cancelled _ _) = 200"

section \<open>lockSeats\<close>

definition lockTimeout :: nat where
  "lockTimeout = 10 * 60"

text \<open>
  The loop over \<open>allAvailableSeats\<close>. \<open>lockedSeats\<close> and \<open>redisLockKeys\<close> are the
  two accumulators of the source. The loop ends with every seat locked, with a refused
  acquisition after which the keys acquired so far are deleted one by one, or with a
  thrown error.
\<close>

datatype acquired = All_Locked "nat list" | Refused "nat list" | Threw

fun release_keys :: "redis_key list \<Rightarrow> lock_store \<Rightarrow> (exn + unit) \<times> lock_store" where
  "release_keys [] r = (Inr (), r)"
| "release_keys (key # keys) r =
     (case redis_del [key] r of
        (Inl e, r') \<Rightarrow> (Inl e, r')
      | (Inr _, r') \<Rightarrow> release_keys keys r')"

fun acquire_locks ::
  "nat \<Rightarrow> nat \<Rightarrow> nat list \<Rightarrow> nat list \<Rightarrow> redis_key list \<Rightarrow> lock_store \<Rightarrow> acquired \<times> lock_store" where
  "acquire_locks show_id userId [] lockedSeats redisLockKeys r = (All_Locked lockedSeats, r)"
| "acquire_locks show_id userId (seatId # rest) lockedSeats redisLockKeys r =
     (let lockKey = SeatLock show_id seatId in
      case redis_set_ex_nx lockKey (Num (int userId)) lockTimeout r of
        (Inl e, r') \<Rightarrow> (Threw, r')
      | (Inr True, r') \<Rightarrow>
          acquire_locks show_id userId rest (lockedSeats @ [seatId]) (redisLockKeys @ [lockKey]) r'
      | (Inr False, r') \<Rightarrow>
          (case release_keys redisLockKeys r' of
             (Inl e, r'') \<Rightarrow> (Threw, r'')
           | (Inr _, r'') \<Rightarrow> (Refused lockedSeats, r'')))"

text \<open>
  \<open>INSERT INTO bookings (user_id, show_id, status) ... RETURNING booking_id\<close>: the id is
  the next value of the sequence, which has none beyond the largest integer;
  \<open>created_at\<close> defaults to NOW(), and the primary key refuses an id that is already
  there.
\<close>

definition insert_booking :: "int \<Rightarrow> nat \<Rightarrow> nat \<Rightarrow> database \<Rightarrow> (exn + nat) \<times> database" where
  "insert_booking now userId show_id tx =
     (let bookingId = Suc (seq_bookings tx);
          tx' = tx\<lparr>seq_bookings := bookingId\<rparr>
      in if \<not> in_int4 bookingId then (Inl OutOfRange, tx)
         else if bookingId \<in> bk_booking_id ` set (tbl_bookings tx) then (Inl UniqueViolation, tx')
         else (Inr bookingId,
               tx'\<lparr>tbl_bookings := tbl_bookings tx @
                  [\<lparr>bk_booking_id = bookingId, bk_user_id = userId, bk_show_id = show_id,
                    bk_status = PENDING, bk_created_at = Some now\<rparr>]\<rparr>))"

text \<open>
  \<open>INSERT INTO show_seats ... ON CONFLICT (show_id, seat_id) DO UPDATE SET status = 'LOCKED',
  booking_id = $2, locked_at = NOW()\<close>, one proposed row after the other. The statement
  fails when two proposed rows have the same key.
\<close>

definition upsert_locked :: "int \<Rightarrow> nat \<Rightarrow> nat \<Rightarrow> show_seats_row list \<Rightarrow> nat \<Rightarrow> show_seats_row list" where
  "upsert_locked now show_id bookingId rows seatId =
     (if \<exists>row \<in> set rows. ss_show_id row = show_id \<and> ss_seat_id row = seatId
      then map (\<lambda>row. if ss_show_id row = show_id \<and> ss_seat_id row = seatId
                       then row\<lparr>ss_status := LOCKED, ss_booking_id := Some bookingId,
                                ss_locked_at := Some now\<rparr>
                       else row) rows
      else rows @ [\<lparr>ss_show_id = show_id, ss_seat_id = seatId, ss_status = LOCKED,
                    ss_booking_id = Some bookingId, ss_locked_at = Some now\<rparr>])"

definition upsert_show_seats :: "int \<Rightarrow> nat \<Rightarrow> nat \<Rightarrow> nat list \<Rightarrow> database \<Rightarrow> exn + database" where
  "upsert_show_seats now show_id bookingId lockedSeats tx =
     (if \<not> distinct lockedSeats then Inl CardinalityViolation
      else Inr (tx\<lparr>tbl_show_seats :=
                  foldl (upsert_locked now show_id bookingId) (tbl_show_seats tx) lockedSeats\<rparr>))"

text \<open>
  The tail of the handler, once every distributed lock is held: the booking row, the
  batch upsert (skipped for an empty list), COMMIT, and the seat details of the answer.
\<close>

definition grant_seats ::
  "int \<Rightarrow> nat \<Rightarrow> nat \<Rightarrow> nat list \<Rightarrow> database \<Rightarrow> database \<Rightarrow> lock_store \<Rightarrow> response \<times> database \<times> lock_store" where
  "grant_seats now userId show_id lockedSeats db tx r =
     (case insert_booking now userId show_id tx of
        (Inl e, tx') \<Rightarrow> (Failed, rollback db tx', r)
      | (Inr bookingId, tx') \<Rightarrow>
          (case (if lockedSeats \<noteq> []
                 then upsert_show_seats now show_id bookingId lockedSeats tx'
                 else Inr tx') of
             Inl e \<Rightarrow> (Failed, rollback db tx', r)
           | Inr tx'' \<Rightarrow>
               (Seats_Locked bookingId
                  (filter (\<lambda>row. st_seat_id row \<in> set lockedSeats) (tbl_seats tx''))
                  lockTimeout,
                commit db tx'', r)))"

text \<open>
  The handler. \<open>seat_ids\<close> is \<open>None\<close> when the request body has no such field. Every
  branch that ends the request returns the response, the committed state and the lock
  store; a thrown error goes to the catch block, which rolls back and answers 500. The
  first SELECT binds \<open>show_id\<close> and throws when it is out of range; the SELECT FOR UPDATE
  binds the array \<open>seat_ids\<close> and throws when one of its elements is.
\<close>

definition lockSeats ::
  "int \<Rightarrow> nat \<Rightarrow> nat \<Rightarrow> nat list option \<Rightarrow> database \<Rightarrow> lock_store \<Rightarrow> response \<times> database \<times> lock_store" where
  "lockSeats now userId show_id seat_ids_opt db r =
     (if seat_ids_opt = None \<or> seat_ids_opt = Some [] then (At_Least_One_Seat, db, r)
      else
        let seat_ids = the seat_ids_opt;
            tx = db;
            showResult = filter (\<lambda>row. sh_show_id row = show_id) (tbl_shows tx)
        in
        if \<not> in_int4 show_id then (Failed, rollback db tx, r)
        else if showResult = [] then (Show_Not_Found, rollback db tx, r)
        else if \<exists>seatId \<in> set seat_ids. \<not> in_int4 seatId then (Failed, rollback db tx, r)
        else
          let seatStatusResult =
                filter (\<lambda>row. ss_show_id row = show_id \<and> ss_seat_id row \<in> set seat_ids)
                  (tbl_show_seats tx);
              unavailableSeats = filter (\<lambda>row. ss_status row \<noteq> AVAILABLE) seatStatusResult
          in
          if unavailableSeats \<noteq> []
          then (Seats_Unavailable (map ss_seat_id unavailableSeats), rollback db tx, r)
          else
            let existingSeatIds = map ss_seat_id seatStatusResult;
                newSeats = filter (\<lambda>seatId. seatId \<notin> set existingSeatIds) seat_ids;
                validNewSeats =
                  map st_seat_id (filter (\<lambda>row. st_seat_id row \<in> set newSeats) (tbl_seats tx));
                invalidSeats = filter (\<lambda>seatId. seatId \<notin> set validNewSeats) newSeats
            in
            if newSeats \<noteq> [] \<and> invalidSeats \<noteq> []
            then (Invalid_Seat_IDs invalidSeats, rollback db tx, r)
            else
              let allAvailableSeats = map ss_seat_id seatStatusResult @ newSeats in
              (case acquire_locks show_id userId allAvailableSeats [] [] r of
                 (Threw, r') \<Rightarrow> (Failed, rollback db tx, r')
               | (Refused lockedSeats, r') \<Rightarrow>
                   (Seats_Unavailable
                      (filter (\<lambda>seatId. seatId \<notin> set lockedSeats) allAvailableSeats),
                    rollback db tx, r')
               | (All_Locked lockedSeats, r') \<Rightarrow>
                   grant_seats now userId show_id lockedSeats db tx r'))"

section \<open>confirmBooking\<close>

text \<open>An UPDATE statement: every row that satisfies the WHERE clause gets the SET clause.\<close>

definition update_show_seats ::
  "(show_seats_row \<Rightarrow> bool) \<Rightarrow> (show_seats_row \<Rightarrow> show_seats_row) \<Rightarrow> database \<Rightarrow> database" where
  "update_show_seats wh st tx =
     tx\<lparr>tbl_show_seats := map (\<lambda>row. if wh row then st row else row) (tbl_show_seats tx)\<rparr>"

definition update_bookings ::
  "(bookings_row \<Rightarrow> bool) \<Rightarrow> (bookings_row \<Rightarrow> bookings_row) \<Rightarrow> database \<Rightarrow> database" where
  "update_bookings wh st tx =
     tx\<lparr>tbl_bookings := map (\<lambda>row. if wh row then st row else row) (tbl_bookings tx)\<rparr>"

text \<open>\<open>SET status = 'AVAILABLE', booking_id = NULL, locked_at = NULL\<close>\<close>

definition release_seat :: "show_seats_row \<Rightarrow> show_seats_row" where
  "release_seat row = row\<lparr>ss_status := AVAILABLE, ss_booking_id := None, ss_locked_at := None\<rparr>"

definition set_booking_status :: "booking_status \<Rightarrow> bookings_row \<Rightarrow> bookings_row" where
  "set_booking_status st row = row\<lparr>bk_status := st\<rparr>"

text \<open>
  \<open>SELECT s.seat_id, s.seat_row, s.seat_number FROM seats s JOIN show_seats ss
  ON s.seat_id = ss.seat_id WHERE ss.booking_id = $1\<close>
\<close>

definition booking_seat_details :: "nat \<Rightarrow> database \<Rightarrow> seats_row list" where
  "booking_seat_details booking_id tx =
     concat (map (\<lambda>s. map (\<lambda>ss. s)
                    (filter (\<lambda>ss. st_seat_id s = ss_seat_id ss \<and> ss_booking_id ss = Some booking_id)
                       (tbl_show_seats tx)))
               (tbl_seats tx))"

text \<open>
  The filter of \<open>expiredSeats\<close>: \<open>new Date(null)\<close> is the epoch, so a row without a lock
  timestamp counts as locked at time 0.
\<close>

definition lock_expired :: "int \<Rightarrow> show_seats_row \<Rightarrow> bool" where
  "lock_expired now seat =
     (let lockedAt = (case ss_locked_at seat of None \<Rightarrow> 0 | Some t \<Rightarrow> t);
          lockExpiry = lockedAt + int lockTimeout * 1000
      in now > lockExpiry)"

text \<open>\<open>if (keys.length > 0) await redisClient.del(...keys)\<close>\<close>

definition del_if_any :: "redis_key list \<Rightarrow> lock_store \<Rightarrow> (exn + unit) \<times> lock_store" where
  "del_if_any keys r = (if keys \<noteq> [] then redis_del keys r else (Inr (), r))"

text \<open>The branch \<open>expiredSeats.length > 0\<close>; it ends with ROLLBACK and the answer 410.\<close>

definition confirm_expired ::
  "nat \<Rightarrow> bookings_row \<Rightarrow> show_seats_row list \<Rightarrow> database \<Rightarrow> database \<Rightarrow> lock_store \<Rightarrow> response \<times> database \<times> lock_store" where
  "confirm_expired booking_id booking expiredSeats db tx r =
     (let expiredSeatIds = map ss_seat_id expiredSeats;
          tx1 = update_show_seats
                  (\<lambda>row. ss_booking_id row = Some booking_id \<and> ss_seat_id row \<in> set expiredSeatIds)
                  release_seat tx;
          expiredLockKeys = map (\<lambda>seat. SeatLock (bk_show_id booking) (ss_seat_id seat)) expiredSeats
      in case del_if_any expiredLockKeys r of
           (Inl e, r') \<Rightarrow> (Failed, rollback db tx1, r')
         | (Inr _, r') \<Rightarrow>
             (let tx2 = update_bookings (\<lambda>row. bk_booking_id row = booking_id)
                          (set_booking_status CANCELLED) tx1
              in (Locks_Expired expiredSeatIds, rollback db tx2, r')))"

text \<open>The rest of the handler when no lock has expired; it ends with COMMIT.\<close>

definition confirm_commit ::
  "nat \<Rightarrow> bookings_row \<Rightarrow> show_seats_row list \<Rightarrow> database \<Rightarrow> database \<Rightarrow> lock_store \<Rightarrow> response \<times> database \<times> lock_store" where
  "confirm_commit booking_id booking seatsResult db tx r =
     (let tx1 = update_bookings (\<lambda>row. bk_booking_id row = booking_id)
                  (set_booking_status CONFIRMED) tx;
          tx2 = update_show_seats (\<lambda>row. ss_booking_id row = Some booking_id)
                  (\<lambda>row. row\<lparr>ss_status := BOOKED\<rparr>) tx1;
          lockKeys = map (\<lambda>seat. SeatLock (bk_show_id booking) (ss_seat_id seat)) seatsResult
      in case del_if_any lockKeys r of
           (Inl e, r') \<Rightarrow> (Failed, rollback db tx2, r')
         | (Inr _, r') \<Rightarrow>
             (Booking_Confirmed booking_id (booking_seat_details booking_id tx2),
              commit db tx2, r'))"

text \<open>
  The handler. The SELECT of the booking binds \<open>booking_id\<close> to an integer column: the ids
  of the rows fit the column, so an id beyond the largest integer matches no row, and the
  SELECT throws for it; the catch block rolls back and answers 500.
\<close>

definition confirmBooking ::
  "int \<Rightarrow> nat \<Rightarrow> nat \<Rightarrow> database \<Rightarrow> lock_store \<Rightarrow> response \<times> database \<times> lock_store" where
  "confirmBooking now userId booking_id db r =
     (let tx = db;
          bookingResult =
            filter (\<lambda>row. bk_booking_id row = booking_id \<and> bk_user_id row = userId) (tbl_bookings tx)
      in case bookingResult of
           [] \<Rightarrow> (if in_int4 booking_id then Booking_Not_Found else Failed, rollback db tx, r)
         | booking # _ \<Rightarrow>
             (if bk_status booking \<noteq> PENDING then (Not_Pending, rollback db tx, r)
              else
                let seatsResult =
                      filter (\<lambda>row. ss_booking_id row = Some booking_id \<and> ss_status row = LOCKED)
                        (tbl_show_seats tx)
                in
                if seatsResult = [] then (No_Locked_Seats, rollback db tx, r)
                else
                  let expiredSeats = filter (lock_expired now) seatsResult in
                  if expiredSeats \<noteq> []
                  then confirm_expired booking_id booking expiredSeats db tx r
                  else confirm_commit booking_id booking seatsResult db tx r))"

section \<open>cancelBooking\<close>

text \<open>
  The handler; its SELECT of the booking throws for an id beyond the largest integer, as
  the one of confirmBooking does.
\<close>

definition cancelBooking ::
  "nat \<Rightarrow> nat \<Rightarrow> database \<Rightarrow> lock_store \<Rightarrow> response \<times> database \<times> lock_store" where
  "cancelBooking userId booking_id db r =
     (let tx = db;
          bookingResult =
            filter (\<lambda>row. bk_booking_id row = booking_id \<and> bk_user_id row = userId) (tbl_bookings tx)
      in case bookingResult of
           [] \<Rightarrow> (if in_int4 booking_id then Booking_Not_Found else Failed, rollback db tx, r)
         | booking # _ \<Rightarrow>
             (if bk_status booking = CANCELLED then (Already_Cancelled, rollback db tx, r)
              else
                let seatsResult = booking_seat_details booking_id tx;
                    tx1 = update_bookings (\<lambda>row. bk_booking_id row = booking_id)
                            (set_booking_status CANCELLED) tx;
                    tx2 = update_show_seats (\<lambda>row. ss_booking_id row = Some booking_id)
                            release_seat tx1;
                    lockKeys = map (\<lambda>seat. SeatLock (bk_show_id booking) (st_seat_id seat)) seatsResult
                in case del_if_any lockKeys r of
                     (Inl e, r') \<Rightarrow> (Failed, rollback db tx2, r')
                   | (Inr _, r') \<Rightarrow> (Booking_Cancelled booking_id seatsResult, commit db tx2, r')))"

section \<open>The cleanup worker\<close>

definition timeoutMinutes :: int where
  "timeoutMinutes = 10"

text \<open>
  \<open>WHERE status = 'PENDING' AND created_at < NOW() - INTERVAL '10 minutes'\<close>; a comparison
  with a NULL \<open>created_at\<close> selects nothing.
\<close>

definition booking_expired :: "int \<Rightarrow> bookings_row \<Rightarrow> bool" where
  "booking_expired now row =
     (bk_status row = PENDING \<and>
      (case bk_created_at row of None \<Rightarrow> False | Some t \<Rightarrow> t < now - timeoutMinutes * 60000))"

text \<open>
  The loop over \<open>expiredBookings.rows\<close>, inside the one transaction of the sweep. It
  returns the error that left the loop, if any, with the transaction's state at that point.
\<close>

fun cleanup_loop ::
  "bookings_row list \<Rightarrow> database \<Rightarrow> lock_store \<Rightarrow> exn option \<times> database \<times> lock_store" where
  "cleanup_loop [] tx r = (None, tx, r)"
| "cleanup_loop (booking # rest) tx r =
     (let booking_id = bk_booking_id booking;
          show_id = bk_show_id booking;
          seatsResult = filter (\<lambda>row. ss_booking_id row = Some booking_id) (tbl_show_seats tx);
          tx1 = update_show_seats (\<lambda>row. ss_booking_id row = Some booking_id) release_seat tx;
          tx2 = update_bookings (\<lambda>row. bk_booking_id row = booking_id)
                  (set_booking_status CANCELLED) tx1
      in case release_keys (map (\<lambda>seat. SeatLock show_id (ss_seat_id seat)) seatsResult) r of
           (Inl e, r') \<Rightarrow> (Some e, tx2, r')
         | (Inr _, r') \<Rightarrow> cleanup_loop rest tx2 r')"

datatype sweep_result = Cleanup_Completed nat | Cleanup_Error exn

definition cleanupExpiredBookings ::
  "int \<Rightarrow> database \<Rightarrow> lock_store \<Rightarrow> sweep_result \<times> database \<times> lock_store" where
  "cleanupExpiredBookings now db r =
     (let tx = db;
          expiredBookings = filter (booking_expired now) (tbl_bookings tx)
      in case cleanup_loop expiredBookings tx r of
           (Some e, tx', r') \<Rightarrow> (Cleanup_Error e, rollback db tx', r')
         | (None, tx', r') \<Rightarrow> (Cleanup_Completed (length expiredBookings), commit db tx', r'))"

section \<open>The admission middlewares\<close>

text \<open>\<open>INCR\<close> creates a missing counter at 1 and fails on a value that is no integer.\<close>

definition redis_incr :: "redis_key \<Rightarrow> lock_store \<Rightarrow> (exn + int) \<times> lock_store" where
  "redis_incr k r =
     (case tick r of
        (True, r') \<Rightarrow> (Inl RedisError, r')
      | (False, r') \<Rightarrow>
          (case kv r' k of
             None \<Rightarrow> (Inr 1, r'\<lparr>kv := (kv r')(k \<mapsto> (Num 1, None))\<rparr>)
           | Some (Num n, ttl) \<Rightarrow> (Inr (n + 1), r'\<lparr>kv := (kv r')(k \<mapsto> (Num (n + 1), ttl))\<rparr>)
           | Some (Str s, ttl) \<Rightarrow> (Inl RedisError, r')))"

definition redis_expire :: "redis_key \<Rightarrow> nat \<Rightarrow> lock_store \<Rightarrow> (exn + unit) \<times> lock_store" where
  "redis_expire k ttl r =
     (case tick r of
        (True, r') \<Rightarrow> (Inl RedisError, r')
      | (False, r') \<Rightarrow>
          (case kv r' k of
             None \<Rightarrow> (Inr (), r')
           | Some (v, _) \<Rightarrow> (Inr (), r'\<lparr>kv := (kv r')(k \<mapsto> (v, Some ttl))\<rparr>)))"

text \<open>
  \<open>multi().incr(key).expire(key, ttl).exec()\<close>: one round trip; an INCR that fails
  inside the block is reported in the reply and does not throw.
\<close>

definition redis_multi_incr_expire ::
  "redis_key \<Rightarrow> nat \<Rightarrow> lock_store \<Rightarrow> (exn + unit) \<times> lock_store" where
  "redis_multi_incr_expire k ttl r =
     (case tick r of
        (True, r') \<Rightarrow> (Inl RedisError, r')
      | (False, r') \<Rightarrow>
          (case kv r' k of
             None \<Rightarrow> (Inr (), r'\<lparr>kv := (kv r')(k \<mapsto> (Num 1, Some ttl))\<rparr>)
           | Some (Num n, _) \<Rightarrow> (Inr (), r'\<lparr>kv := (kv r')(k \<mapsto> (Num (n + 1), Some ttl))\<rparr>)
           | Some (Str s, _) \<Rightarrow> (Inr (), r'\<lparr>kv := (kv r')(k \<mapsto> (Str s, Some ttl))\<rparr>)))"

text \<open>
  The queue \<open>waiting-room-queue\<close>: \<open>getWaiting\<close> returns the jobs that wait, and a job
  added with a positive delay enters the delayed set.
\<close>

definition queue_getWaiting :: "lock_store \<Rightarrow> (exn + job list) \<times> lock_store" where
  "queue_getWaiting r =
     (case tick r of
        (True, r') \<Rightarrow> (Inl RedisError, r')
      | (False, r') \<Rightarrow> (Inr (q_waiting r'), r'))"

definition queue_add :: "job \<Rightarrow> lock_store \<Rightarrow> (exn + unit) \<times> lock_store" where
  "queue_add j r =
     (case tick r of
        (True, r') \<Rightarrow> (Inl RedisError, r')
      | (False, r') \<Rightarrow>
          (if job_delay j > 0 then (Inr (), r'\<lparr>q_delayed := q_delayed r' @ [j]\<rparr>)
           else (Inr (), r'\<lparr>q_waiting := q_waiting r' @ [j]\<rparr>)))"

text \<open>
  A request as the middlewares read it, the two environment variables after
  \<open>parseInt\<close>, and the values drawn by \<open>Date.now()\<close> and \<open>Math.random()\<close> while the
  request is served.
\<close>

record request =
  req_path :: string
  req_ip :: "string option"
  req_show_id :: "string option"

record environment =
  RATE_LIMIT_PER_MINUTE :: int
  MAX_CONCURRENT_USERS :: int

record draws =
  drawn_now :: int
  drawn_token :: string
  drawn_delay :: nat
  drawn_priority :: nat

datatype admission =
    Next "redis_val option"
  | Too_Many_Requests
  | In_Waiting_Room
  | Placed_In_Waiting_Room string

fun startsWith :: "string \<Rightarrow> string \<Rightarrow> bool" where
  "startsWith s p = (take (length p) s = p)"

fun includes_str :: "string \<Rightarrow> string \<Rightarrow> bool" where
  "includes_str [] sub = (sub = [])"
| "includes_str (c # cs) sub = (startsWith (c # cs) sub \<or> includes_str cs sub)"

text \<open>\<open>req.ip || 'unknown'\<close>\<close>

definition clientId_of :: "request \<Rightarrow> string" where
  "clientId_of req =
     (case req_ip req of None \<Rightarrow> ''unknown'' | Some ip \<Rightarrow> if ip = [] then ''unknown'' else ip)"

text \<open>A string read from the store is truthy when it is not empty.\<close>

fun truthy :: "redis_val option \<Rightarrow> bool" where
  "truthy None = False"
| "truthy (Some (Num n)) = True"
| "truthy (Some (Str s)) = (s \<noteq> [])"

text \<open>\<open>parseInt(value || '0')\<close>; \<open>None\<close> is NaN, which no comparison finds greater.\<close>

fun parse_count :: "redis_val option \<Rightarrow> int option" where
  "parse_count None = Some 0"
| "parse_count (Some (Num n)) = Some n"
| "parse_count (Some (Str s)) = (if s = [] then Some 0 else None)"

definition exceeds :: "int option \<Rightarrow> int \<Rightarrow> bool" where
  "exceeds count limit = (case count of None \<Rightarrow> False | Some n \<Rightarrow> n > limit)"

definition rateLimiter :: "environment \<Rightarrow> request \<Rightarrow> lock_store \<Rightarrow> admission \<times> lock_store" where
  "rateLimiter env req r =
     (let clientId = clientId_of req;
          rateLimitKey = RateLimit clientId
      in case redis_incr rateLimitKey r of
           (Inl e, r1) \<Rightarrow> (Next None, r1)
         | (Inr current, r1) \<Rightarrow>
             (case (if current = 1 then redis_expire rateLimitKey 60 r1 else (Inr (), r1)) of
                (Inl e, r2) \<Rightarrow> (Next None, r2)
              | (Inr _, r2) \<Rightarrow>
                  (let maxRequests =
                         (if includes_str (req_path req) ''/booking/'' \<or> includes_str (req_path req) ''/lock''
                             \<or> includes_str (req_path req) ''/confirm''
                          then 30 else RATE_LIMIT_PER_MINUTE env)
                   in if current > maxRequests then (Too_Many_Requests, r2)
                      else (Next None, r2))))"

text \<open>
  The two demand checks share their shape: the key, the threshold and the window differ.
  Both catch their own errors and answer \<open>false\<close>.
\<close>

definition check_demand :: "redis_key \<Rightarrow> int \<Rightarrow> nat \<Rightarrow> lock_store \<Rightarrow> bool \<times> lock_store" where
  "check_demand key threshold window r =
     (case redis_get key r of
        (Inl e, r1) \<Rightarrow> (False, r1)
      | (Inr current, r1) \<Rightarrow>
          (if exceeds (parse_count current) threshold then (True, r1)
           else (case redis_multi_incr_expire key window r1 of
                   (Inl e, r2) \<Rightarrow> (False, r2)
                 | (Inr _, r2) \<Rightarrow> (False, r2))))"

definition checkHighDemandShow :: "string \<Rightarrow> lock_store \<Rightarrow> bool \<times> lock_store" where
  "checkHighDemandShow showId r = check_demand (ShowDemand showId) 50 300 r"

definition checkSystemLoad :: "lock_store \<Rightarrow> bool \<times> lock_store" where
  "checkSystemLoad r = check_demand SystemLoad 200 120 r"

text \<open>The branch \<open>if (existingToken)\<close> of the waiting room.\<close>

definition existing_token ::
  "redis_key \<Rightarrow> redis_val \<Rightarrow> lock_store \<Rightarrow> admission \<times> lock_store" where
  "existing_token waitingRoomKey existingToken r =
     (case redis_get (CanProceed existingToken) r of
        (Inl e, r1) \<Rightarrow> (Next None, r1)
      | (Inr canProceed, r1) \<Rightarrow>
          (if truthy canProceed
           then (case redis_del [waitingRoomKey] r1 of
                   (Inl e, r2) \<Rightarrow> (Next None, r2)
                 | (Inr _, r2) \<Rightarrow>
                     (case redis_del [CanProceed existingToken] r2 of
                        (Inl e, r3) \<Rightarrow> (Next None, r3)
                      | (Inr _, r3) \<Rightarrow> (Next (Some existingToken), r3)))
           else (In_Waiting_Room, r1)))"

text \<open>The queue-size check and the enqueueing of a caller that has no marker.\<close>

definition enqueue_caller ::
  "environment \<Rightarrow> draws \<Rightarrow> string \<Rightarrow> redis_key \<Rightarrow> lock_store \<Rightarrow> admission \<times> lock_store" where
  "enqueue_caller env d clientId waitingRoomKey r =
     (case queue_getWaiting r of
        (Inl e, r1) \<Rightarrow> (Next None, r1)
      | (Inr queueSize, r1) \<Rightarrow>
          (if int (length queueSize) \<ge> MAX_CONCURRENT_USERS env
           then (let token = drawn_token d in
                 case queue_add \<lparr>job_token = token, job_clientId = clientId,
                                 job_timestamp = drawn_now d, job_delay = drawn_delay d + 5000,
                                 job_priority = drawn_priority d\<rparr> r1 of
                   (Inl e, r2) \<Rightarrow> (Next None, r2)
                 | (Inr _, r2) \<Rightarrow>
                     (case redis_setex waitingRoomKey 300 (Str token) r2 of
                        (Inl e, r3) \<Rightarrow> (Next None, r3)
                      | (Inr _, r3) \<Rightarrow> (Placed_In_Waiting_Room token, r3)))
           else (Next None, r1)))"

definition isBookingRoute :: "string \<Rightarrow> bool" where
  "isBookingRoute path =
     (includes_str path ''/booking/'' \<or> includes_str path ''/shows/'' \<or> includes_str path ''/lock''
      \<or> includes_str path ''/confirm'')"

definition smartWaitingRoom ::
  "environment \<Rightarrow> draws \<Rightarrow> request \<Rightarrow> lock_store \<Rightarrow> admission \<times> lock_store" where
  "smartWaitingRoom env d req r =
     (if req_path req = ''/health'' \<or> startsWith (req_path req) ''/api/v1/admin'' then (Next None, r)
      else if \<not> isBookingRoute (req_path req) then (Next None, r)
      else
        let clientId = clientId_of req;
            showId = req_show_id req;
            (shouldActivateWaitingRoom, r1) =
              (if showId \<noteq> None \<and> showId \<noteq> Some [] then checkHighDemandShow (the showId) r
               else checkSystemLoad r)
        in
        if \<not> shouldActivateWaitingRoom then (Next None, r1)
        else
          let waitingRoomKey = WaitingRoom clientId in
          (case redis_get waitingRoomKey r1 of
             (Inl e, r2) \<Rightarrow> (Next None, r2)
           | (Inr existingToken, r2) \<Rightarrow>
               (if truthy existingToken
                then existing_token waitingRoomKey (the existingToken) r2
                else enqueue_caller env d clientId waitingRoomKey r2)))"

text \<open>\<open>app.use(rateLimiter); app.use(virtualWaitingRoom)\<close>: the waiting room runs when
  the rate limiter calls \<open>next()\<close>.\<close>

definition admission_layer ::
  "environment \<Rightarrow> draws \<Rightarrow> request \<Rightarrow> lock_store \<Rightarrow> admission \<times> lock_store" where
  "admission_layer env d req r =
     (case rateLimiter env req r of
        (Next _, r1) \<Rightarrow> smartWaitingRoom env d req r1
      | (rejected, r1) \<Rightarrow> (rejected, r1))"

section \<open>Vocabulary of the properties\<close>

text \<open>A lock store is reliable when no round trip of its schedule throws.\<close>

definition reliable :: "lock_store \<Rightarrow> bool" where
  "reliable r = (True \<notin> set (faults r))"

definition tables_unchanged :: "database \<Rightarrow> database \<Rightarrow> bool" where
  "tables_unchanged db db' =
     (tbl_bookings db' = tbl_bookings db \<and> tbl_show_seats db' = tbl_show_seats db)"

fun granted :: "response \<Rightarrow> bool" where
  "granted (Seats_Locked _ _ _) = True"
| "granted _ = False"

text \<open>The entry \<open>SET seat_lock:show:seat userId EX 600 NX\<close> leaves behind.\<close>

definition held :: "nat \<Rightarrow> (redis_val \<times> nat option)" where
  "held userId = (Num (int userId), Some lockTimeout)"

text \<open>The ids of a request fit the integer columns.\<close>

definition ids_in_range :: "nat \<Rightarrow> nat list \<Rightarrow> bool" where
  "ids_in_range show_id seat_ids = (in_int4 show_id \<and> (\<forall>seatId \<in> set seat_ids. in_int4 seatId))"

text \<open>The rows that \<open>SELECT ... FOR UPDATE\<close> of lockSeats returns.\<close>

definition targeted :: "nat \<Rightarrow> nat list \<Rightarrow> database \<Rightarrow> show_seats_row list" where
  "targeted show_id seat_ids db =
     filter (\<lambda>row. ss_show_id row = show_id \<and> ss_seat_id row \<in> set seat_ids) (tbl_show_seats db)"

text \<open>
  A seat of a show is held for a booking in a table when the table has a row for it and
  every such row is LOCKED, owned by the booking and stamped with the time of the lock.
\<close>

definition held_in :: "nat \<Rightarrow> nat \<Rightarrow> int \<Rightarrow> show_seats_row list \<Rightarrow> nat \<Rightarrow> bool" where
  "held_in show_id bookingId now rows seatId =
     ((\<exists>row \<in> set rows. ss_show_id row = show_id \<and> ss_seat_id row = seatId) \<and>
      (\<forall>row \<in> set rows. ss_show_id row = show_id \<and> ss_seat_id row = seatId \<longrightarrow>
         ss_status row = LOCKED \<and> ss_booking_id row = Some bookingId \<and> ss_locked_at row = Some now))"

text \<open>
  A seat id without a row of show_seats for the show, and a seat id that the seats table
  does not have for any venue.
\<close>

definition no_row_for :: "nat \<Rightarrow> nat \<Rightarrow> database \<Rightarrow> bool" where
  "no_row_for show_id seatId db =
     (filter (\<lambda>row. ss_show_id row = show_id \<and> ss_seat_id row = seatId) (tbl_show_seats db) = [])"

definition unknown_seat :: "nat \<Rightarrow> database \<Rightarrow> bool" where
  "unknown_seat seatId db = (filter (\<lambda>row. st_seat_id row = seatId) (tbl_seats db) = [])"

text \<open>
  The four operations that write bookings and show_seats, with their arguments, and the
  committed state and lock store each leaves behind.
\<close>

datatype operation =
    Lock nat nat "nat list option"
  | Confirm nat nat
  | Cancel nat nat
  | Sweep

fun run_op :: "int \<Rightarrow> operation \<Rightarrow> database \<Rightarrow> lock_store \<Rightarrow> database \<times> lock_store" where
  "run_op now (Lock userId show_id seat_ids) db r = snd (lockSeats now userId show_id seat_ids db r)"
| "run_op now (Confirm userId booking_id) db r = snd (confirmBooking now userId booking_id db r)"
| "run_op now (Cancel userId booking_id) db r = snd (cancelBooking userId booking_id db r)"
| "run_op now Sweep db r = snd (cleanupExpiredBookings now db r)"

text \<open>
  Two readings of the lock timestamp: it is set exactly on LOCKED rows; or it is set
  exactly on LOCKED and BOOKED rows, and an AVAILABLE row has no owning booking.
\<close>

definition locked_at_iff_locked :: "show_seats_row \<Rightarrow> bool" where
  "locked_at_iff_locked row = (ss_locked_at row \<noteq> None \<longleftrightarrow> ss_status row = LOCKED)"

definition seat_consistent :: "show_seats_row \<Rightarrow> bool" where
  "seat_consistent row =
     ((ss_locked_at row \<noteq> None \<longleftrightarrow> ss_status row = LOCKED \<or> ss_status row = BOOKED) \<and>
      (ss_status row = AVAILABLE \<longrightarrow> ss_booking_id row = None))"

text \<open>The status of the booking with a given id, and the primary key of bookings.\<close>

definition booking_status_of :: "database \<Rightarrow> nat \<Rightarrow> booking_status option" where
  "booking_status_of db booking_id =
     map_option bk_status (find (\<lambda>row. bk_booking_id row = booking_id) (tbl_bookings db))"

definition bookings_pkey :: "database \<Rightarrow> bool" where
  "bookings_pkey db = distinct (map bk_booking_id (tbl_bookings db))"

text \<open>
  What a completed sweep leaves: the bookings whose ids expired are CANCELLED, the rows they
  owned are released, and the lock entry of every such row under its booking's show is gone.
\<close>

definition expired_ids :: "int \<Rightarrow> database \<Rightarrow> nat set" where
  "expired_ids now db = bk_booking_id ` set (filter (booking_expired now) (tbl_bookings db))"

definition swept_bookings :: "nat set \<Rightarrow> bookings_row list \<Rightarrow> bookings_row list" where
  "swept_bookings ids rows =
     map (\<lambda>row. if bk_booking_id row \<in> ids then set_booking_status CANCELLED row else row) rows"

definition swept_seats :: "nat set \<Rightarrow> show_seats_row list \<Rightarrow> show_seats_row list" where
  "swept_seats ids rows =
     map (\<lambda>row. if ss_booking_id row \<in> Some ` ids then release_seat row else row) rows"

definition locks_released :: "int \<Rightarrow> database \<Rightarrow> lock_store \<Rightarrow> bool" where
  "locks_released now db r' =
     (\<forall>b \<in> set (filter (booking_expired now) (tbl_bookings db)).
        \<forall>row \<in> set (tbl_show_seats db).
          ss_booking_id row = Some (bk_booking_id b) \<longrightarrow>
          kv r' (SeatLock (bk_show_id b) (ss_seat_id row)) = None)"

text \<open>
  The flags of the failure schedule that the round trips between two states of the lock
  store consumed; an operation threw between them when one of these flags is set. A stretch
  of operations fails open towards \<open>passed\<close> when a set flag among the consumed ones
  implies \<open>passed\<close>.
\<close>

definition consumed :: "lock_store \<Rightarrow> lock_store \<Rightarrow> bool list" where
  "consumed r r' = take (length (faults r) - length (faults r')) (faults r)"

definition thrown :: "lock_store \<Rightarrow> lock_store \<Rightarrow> bool" where
  "thrown r r' = (True \<in> set (consumed r r'))"

definition fails_open :: "lock_store \<Rightarrow> lock_store \<Rightarrow> bool \<Rightarrow> bool" where
  "fails_open r r' passed = (\<exists>fl. faults r = fl @ faults r' \<and> (True \<in> set fl \<longrightarrow> passed))"

text \<open>
  The waiting room as a request meets it: the demand counter that applies to the request
  and its threshold, whether the middleware applies to the path at all, the caller's queue
  marker, whether the caller holds a token of admission, and the job the middleware
  enqueues. Two lock stores have the same data when they differ in the schedule only.
\<close>

definition demand_key :: "request \<Rightarrow> redis_key" where
  "demand_key req =
     (if req_show_id req \<noteq> None \<and> req_show_id req \<noteq> Some [] then ShowDemand (the (req_show_id req))
      else SystemLoad)"

definition demand_threshold :: "request \<Rightarrow> int" where
  "demand_threshold req =
     (if req_show_id req \<noteq> None \<and> req_show_id req \<noteq> Some [] then 50 else 200)"

definition over_threshold :: "request \<Rightarrow> lock_store \<Rightarrow> bool" where
  "over_threshold req r =
     exceeds (parse_count (map_option fst (kv r (demand_key req)))) (demand_threshold req)"

definition gated :: "request \<Rightarrow> bool" where
  "gated req =
     (req_path req \<noteq> ''/health'' \<and> \<not> startsWith (req_path req) ''/api/v1/admin'' \<and>
      isBookingRoute (req_path req))"

definition marker_of :: "request \<Rightarrow> lock_store \<Rightarrow> redis_val option" where
  "marker_of req r = map_option fst (kv r (WaitingRoom (clientId_of req)))"

definition admitted :: "request \<Rightarrow> lock_store \<Rightarrow> bool" where
  "admitted req r =
     (truthy (marker_of req r) \<and>
      truthy (map_option fst (kv r (CanProceed (the (marker_of req r))))))"

definition waiting_job :: "draws \<Rightarrow> request \<Rightarrow> job" where
  "waiting_job d req =
     \<lparr>job_token = drawn_token d, job_clientId = clientId_of req, job_timestamp = drawn_now d,
      job_delay = drawn_delay d + 5000, job_priority = drawn_priority d\<rparr>"

definition same_data :: "lock_store \<Rightarrow> lock_store \<Rightarrow> bool" where
  "same_data r r' = (kv r' = kv r \<and> q_waiting r' = q_waiting r \<and> q_delayed r' = q_delayed r)"

section \<open>Example states\<close>

text \<open>
  Show 1 plays at venue 1, whose seats are 1 and 2; seat 7 belongs to venue 2. Both seats of
  the venue have their row for the show, seat 7 has none.
\<close>

definition example_seats :: "seats_row list" where
  "example_seats =
     [\<lparr>st_seat_id = 1, st_venue_id = 1, st_seat_row = ''A'', st_seat_number = 1\<rparr>,
      \<lparr>st_seat_id = 2, st_venue_id = 1, st_seat_row = ''A'', st_seat_number = 2\<rparr>,
      \<lparr>st_seat_id = 7, st_venue_id = 2, st_seat_row = ''A'', st_seat_number = 1\<rparr>]"

definition example_db :: database where
  "example_db =
     \<lparr>tbl_shows = [\<lparr>sh_show_id = 1, sh_venue_id = 1\<rparr>],
      tbl_seats = example_seats,
      tbl_bookings = [],
      tbl_show_seats =
        [\<lparr>ss_show_id = 1, ss_seat_id = 1, ss_status = AVAILABLE, ss_booking_id = None,
          ss_locked_at = None\<rparr>,
         \<lparr>ss_show_id = 1, ss_seat_id = 2, ss_status = AVAILABLE, ss_booking_id = None,
          ss_locked_at = None\<rparr>],
      seq_bookings = 0\<rparr>"

text \<open>The same show after booking 1 of user 9 took seat 2.\<close>

definition example_db_taken :: database where
  "example_db_taken =
     \<lparr>tbl_shows = [\<lparr>sh_show_id = 1, sh_venue_id = 1\<rparr>],
      tbl_seats = example_seats,
      tbl_bookings =
        [\<lparr>bk_booking_id = 1, bk_user_id = 9, bk_show_id = 1, bk_status = CONFIRMED,
          bk_created_at = Some 0\<rparr>],
      tbl_show_seats =
        [\<lparr>ss_show_id = 1, ss_seat_id = 1, ss_status = AVAILABLE, ss_booking_id = None,
          ss_locked_at = None\<rparr>,
         \<lparr>ss_show_id = 1, ss_seat_id = 2, ss_status = BOOKED, ss_booking_id = Some 1,
          ss_locked_at = Some 0\<rparr>],
      seq_bookings = 1\<rparr>"

definition empty_store :: lock_store where
  "empty_store = \<lparr>kv = Map.empty, q_waiting = [], q_delayed = [], faults = []\<rparr>"

text \<open>A store in which another process holds the lock of seat 2 of show 1.\<close>

definition contended_store :: lock_store where
  "contended_store =
     \<lparr>kv = [SeatLock 1 2 \<mapsto> held 9], q_waiting = [], q_delayed = [], faults = []\<rparr>"

text \<open>The same store when its third round trip throws.\<close>

definition contended_flaky_store :: lock_store where
  "contended_flaky_store =
     \<lparr>kv = [SeatLock 1 2 \<mapsto> held 9], q_waiting = [], q_delayed = [],
      faults = [False, False, True]\<rparr>"

text \<open>
  User 5 holds seats 1 and 2 of show 1 under the PENDING booking 1, locked at time 1000,
  and the lock store has the two entries.
\<close>

definition example_db_pending :: database where
  "example_db_pending =
     \<lparr>tbl_shows = [\<lparr>sh_show_id = 1, sh_venue_id = 1\<rparr>],
      tbl_seats = example_seats,
      tbl_bookings =
        [\<lparr>bk_booking_id = 1, bk_user_id = 5, bk_show_id = 1, bk_status = PENDING,
          bk_created_at = Some 1000\<rparr>],
      tbl_show_seats =
        [\<lparr>ss_show_id = 1, ss_seat_id = 1, ss_status = LOCKED, ss_booking_id = Some 1,
          ss_locked_at = Some 1000\<rparr>,
         \<lparr>ss_show_id = 1, ss_seat_id = 2, ss_status = LOCKED, ss_booking_id = Some 1,
          ss_locked_at = Some 1000\<rparr>],
      seq_bookings = 1\<rparr>"

definition holder_store :: lock_store where
  "holder_store =
     \<lparr>kv = [SeatLock 1 1 \<mapsto> held 5, SeatLock 1 2 \<mapsto> held 5],
      q_waiting = [], q_delayed = [], faults = []\<rparr>"

text \<open>A PENDING booking of user 5 that owns no LOCKED row.\<close>

definition example_db_orphan :: database where
  "example_db_orphan =
     \<lparr>tbl_shows = [\<lparr>sh_show_id = 1, sh_venue_id = 1\<rparr>],
      tbl_seats = example_seats,
      tbl_bookings =
        [\<lparr>bk_booking_id = 1, bk_user_id = 5, bk_show_id = 1, bk_status = PENDING,
          bk_created_at = Some 1000\<rparr>],
      tbl_show_seats =
        [\<lparr>ss_show_id = 1, ss_seat_id = 1, ss_status = AVAILABLE, ss_booking_id = None,
          ss_locked_at = None\<rparr>,
         \<lparr>ss_show_id = 1, ss_seat_id = 2, ss_status = BOOKED, ss_booking_id = Some 1,
          ss_locked_at = Some 1000\<rparr>],
      seq_bookings = 1\<rparr>"

text \<open>Booking 1 of user 5 after its cancellation.\<close>

definition example_db_cancelled :: database where
  "example_db_cancelled =
     \<lparr>tbl_shows = [\<lparr>sh_show_id = 1, sh_venue_id = 1\<rparr>],
      tbl_seats = example_seats,
      tbl_bookings =
        [\<lparr>bk_booking_id = 1, bk_user_id = 5, bk_show_id = 1, bk_status = CANCELLED,
          bk_created_at = Some 1000\<rparr>],
      tbl_show_seats =
        [\<lparr>ss_show_id = 1, ss_seat_id = 1, ss_status = AVAILABLE, ss_booking_id = None,
          ss_locked_at = None\<rparr>,
         \<lparr>ss_show_id = 1, ss_seat_id = 2, ss_status = AVAILABLE, ss_booking_id = None,
          ss_locked_at = None\<rparr>],
      seq_bookings = 1\<rparr>"

text \<open>
  Two PENDING bookings created at time 1000: booking 1 of user 5 holds seat 1, booking 2
  of user 6 holds seat 2. The lock store has both entries and a given failure schedule.
\<close>

definition example_db_two_pending :: database where
  "example_db_two_pending =
     \<lparr>tbl_shows = [\<lparr>sh_show_id = 1, sh_venue_id = 1\<rparr>],
      tbl_seats = example_seats,
      tbl_bookings =
        [\<lparr>bk_booking_id = 1, bk_user_id = 5, bk_show_id = 1, bk_status = PENDING,
          bk_created_at = Some 1000\<rparr>,
         \<lparr>bk_booking_id = 2, bk_user_id = 6, bk_show_id = 1, bk_status = PENDING,
          bk_created_at = Some 1000\<rparr>],
      tbl_show_seats =
        [\<lparr>ss_show_id = 1, ss_seat_id = 1, ss_status = LOCKED, ss_booking_id = Some 1,
          ss_locked_at = Some 1000\<rparr>,
         \<lparr>ss_show_id = 1, ss_seat_id = 2, ss_status = LOCKED, ss_booking_id = Some 2,
          ss_locked_at = Some 1000\<rparr>],
      seq_bookings = 2\<rparr>"

definition two_holders_store :: "bool list \<Rightarrow> lock_store" where
  "two_holders_store schedule =
     \<lparr>kv = [SeatLock 1 1 \<mapsto> held 5, SeatLock 1 2 \<mapsto> held 6],
      q_waiting = [], q_delayed = [], faults = schedule\<rparr>"

text \<open>
  A request to lock seats of show 1 from the address 10.0.0.1, the default environment,
  and the values drawn while it is served.
\<close>

definition example_env :: environment where
  "example_env = \<lparr>RATE_LIMIT_PER_MINUTE = 60, MAX_CONCURRENT_USERS = 500\<rparr>"

definition example_draws :: draws where
  "example_draws = \<lparr>drawn_now = 1000, drawn_token = ''token_1000_abc'', drawn_delay = 7000,
                     drawn_priority = 3\<rparr>"

definition lock_request :: request where
  "lock_request = \<lparr>req_path = ''/api/v1/bookings/lock'', req_ip = Some ''10.0.0.1'',
                    req_show_id = Some ''1''\<rparr>"

definition other_job :: job where
  "other_job = \<lparr>job_token = ''token_1_x'', job_clientId = ''10.0.0.9'', job_timestamp = 1,
                 job_delay = 0, job_priority = 0\<rparr>"

text \<open>Show 1 has had 51 requests in its window; the caller has no marker.\<close>

definition busy_store :: "job list \<Rightarrow> bool list \<Rightarrow> lock_store" where
  "busy_store waiting schedule =
     \<lparr>kv = [ShowDemand ''1'' \<mapsto> (Num 51, Some 300)],
      q_waiting = waiting, q_delayed = [], faults = schedule\<rparr>"

text \<open>The same, and the caller has a marker but no token of admission.\<close>

definition queued_store :: "bool list \<Rightarrow> lock_store" where
  "queued_store schedule =
     \<lparr>kv = [ShowDemand ''1'' \<mapsto> (Num 51, Some 300),
             WaitingRoom ''10.0.0.1'' \<mapsto> (Str ''token_900_xyz'', Some 300)],
      q_waiting = [], q_delayed = [], faults = schedule\<rparr>"

section \<open>lockSeats grants every seat or none\<close>

lemma redis_del_reliable:
  "reliable r \<Longrightarrow> \<exists>r'. redis_del ks r = (Inr (), r') \<and> reliable r'
           \<and> kv r' = (\<lambda>k. if k \<in> set ks then None else kv r k)"
  by (cases "faults r") (auto simp: redis_del_def tick_def reliable_def)

lemma release_keys_reliable:
  "reliable r \<Longrightarrow> \<exists>r'. release_keys ks r = (Inr (), r') \<and> reliable r'
      \<and> kv r' = (\<lambda>k. if k \<in> set ks then None else kv r k)"
proof (induction ks arbitrary: r)
  case Nil
  then show ?case by simp
next
  case (Cons key keys)
  from redis_del_reliable [OF Cons.prems, of "[key]"] obtain r1 where
    d: "redis_del [key] r = (Inr (), r1)" "reliable r1"
       "kv r1 = (\<lambda>k. if k \<in> set [key] then None else kv r k)" by blast
  from Cons.IH [OF d(2)] obtain r2 where
    e: "release_keys keys r1 = (Inr (), r2)" "reliable r2"
       "kv r2 = (\<lambda>k. if k \<in> set keys then None else kv r1 k)" by blast
  show ?case using d e by (auto simp: fun_eq_iff)
qed

lemma set_nx_cases:
  assumes "redis_set_ex_nx k v ttl r = (res, r')"
  shows "(\<exists>e. res = Inl e) 
       \<or> (res = Inr True \<and> kv r k = None \<and> kv r' = (kv r)(k \<mapsto> (v, Some ttl)) \<and> (reliable r \<longrightarrow> reliable r'))
       \<or> (res = Inr False \<and> kv r k \<noteq> None \<and> kv r' = kv r \<and> (reliable r \<longrightarrow> reliable r'))"
  using assms
  by (auto simp: redis_set_ex_nx_def tick_def reliable_def split: list.splits bool.splits if_splits)

lemma acquire_locks_inv:
  assumes "acquire_locks show_id userId seats ls ks r = (res, r')"
      and "ks = map (SeatLock show_id) ls"
      and "\<forall>s \<in> set ls. kv r0 (SeatLock show_id s) = None"
      and "kv r = (\<lambda>k. if k \<in> SeatLock show_id ` set ls then Some (held userId) else kv r0 k)"
  shows "(\<forall>ls'. res = All_Locked ls' \<longrightarrow>
            ls' = ls @ seats \<and> (\<forall>s \<in> set ls'. kv r0 (SeatLock show_id s) = None) \<and>
            kv r' = (\<lambda>k. if k \<in> SeatLock show_id ` set ls' then Some (held userId) else kv r0 k))
       \<and> (\<forall>ls'. res = Refused ls' \<and> reliable r \<longrightarrow> kv r' = kv r0)"
  using assms
proof (induction seats arbitrary: ls ks r)
  case Nil
  then show ?case by auto
next
  case (Cons seatId rest)
  obtain res1 r1 where s1: "redis_set_ex_nx (SeatLock show_id seatId) (Num (int userId)) lockTimeout r = (res1, r1)"
    by (cases "redis_set_ex_nx (SeatLock show_id seatId) (Num (int userId)) lockTimeout r") auto
  from set_nx_cases [OF s1] consider
      (err) e where "res1 = Inl e"
    | (ok) "res1 = Inr True" "kv r (SeatLock show_id seatId) = None"
           "kv r1 = (kv r)(SeatLock show_id seatId \<mapsto> (Num (int userId), Some lockTimeout))"
           "reliable r \<longrightarrow> reliable r1"
    | (no) "res1 = Inr False" "kv r (SeatLock show_id seatId) \<noteq> None" "kv r1 = kv r"
           "reliable r \<longrightarrow> reliable r1"
    by auto
  then show ?case
  proof cases
    case err
    with Cons.prems(1) s1 show ?thesis by auto
  next
    case ok
    have rec: "acquire_locks show_id userId rest (ls @ [seatId]) (ks @ [SeatLock show_id seatId]) r1 = (res, r')"
      using Cons.prems(1) s1 ok(1) by simp
    have fresh: "seatId \<notin> set ls"
      using ok(2) Cons.prems(4) by (auto simp: held_def)
    have a: "ks @ [SeatLock show_id seatId] = map (SeatLock show_id) (ls @ [seatId])"
      using Cons.prems(2) by simp
    have b: "\<forall>s \<in> set (ls @ [seatId]). kv r0 (SeatLock show_id s) = None"
      using Cons.prems(3,4) ok(2) fresh by (auto split: if_splits)
    have c: "kv r1 = (\<lambda>k. if k \<in> SeatLock show_id ` set (ls @ [seatId]) then Some (held userId) else kv r0 k)"
      using ok(3) Cons.prems(4) by (auto simp: fun_eq_iff held_def)
    from Cons.IH [OF rec a b c] ok(4) show ?thesis by auto
  next
    case no
    have notall: "res \<noteq> All_Locked ls'" for ls'
      using Cons.prems(1) s1 no(1) by (auto split: prod.splits sum.splits)
    have ref: "kv r' = kv r0" if rel: "reliable r" and rf: "res = Refused ls'" for ls'
    proof -
      have "reliable r1" using no(4) rel by simp
      from release_keys_reliable [OF this, of ks] obtain r2 where
        rk: "release_keys ks r1 = (Inr (), r2)"
            "kv r2 = (\<lambda>k. if k \<in> set ks then None else kv r1 k)" by blast
      have "r' = r2" using Cons.prems(1) s1 no(1) rk(1) by simp
      moreover have "kv r2 = kv r0"
        using rk(2) no(3) Cons.prems(2,3,4) by (auto simp: fun_eq_iff)
      ultimately show ?thesis by simp
    qed
    show ?thesis using notall ref by blast
  qed
qed


lemma held_in_map:
  assumes "\<forall>row \<in> set rows. ss_show_id (f row) = ss_show_id row \<and> ss_seat_id (f row) = ss_seat_id row"
      and "\<forall>row \<in> set rows. ss_show_id row = show_id \<and> ss_seat_id row = s \<longrightarrow>
             ss_status (f row) = LOCKED \<and> ss_booking_id (f row) = Some b \<and> ss_locked_at (f row) = Some now"
      and "\<exists>row \<in> set rows. ss_show_id row = show_id \<and> ss_seat_id row = s"
  shows "held_in show_id b now (map f rows) s"
  using assms unfolding held_in_def by (fastforce simp: image_iff)

lemma upsert_locked_self:
  "held_in show_id b now (upsert_locked now show_id b rows x) x"
proof (cases "\<exists>row \<in> set rows. ss_show_id row = show_id \<and> ss_seat_id row = x")
  case True
  show ?thesis
    unfolding upsert_locked_def if_P [OF True]
    by (rule held_in_map) (use True in auto)
next
  case False
  then show ?thesis
    by (auto simp: upsert_locked_def held_in_def)
qed

lemma upsert_locked_other:
  assumes "held_in show_id b now rows s"
  shows "held_in show_id b now (upsert_locked now show_id b rows x) s"
proof (cases "\<exists>row \<in> set rows. ss_show_id row = show_id \<and> ss_seat_id row = x")
  case True
  show ?thesis
    unfolding upsert_locked_def if_P [OF True]
    by (rule held_in_map) (use assms in \<open>auto simp: held_in_def\<close>)
next
  case False
  then show ?thesis
    using assms by (auto simp: upsert_locked_def held_in_def)
qed

lemma foldl_upsert_held:
  assumes "\<forall>s \<in> D. held_in show_id b now rows s"
  shows "\<forall>s \<in> D \<union> set xs. held_in show_id b now (foldl (upsert_locked now show_id b) rows xs) s"
  using assms
proof (induction xs arbitrary: rows D)
  case Nil
  then show ?case by simp
next
  case (Cons x xs)
  have "\<forall>s \<in> insert x D. held_in show_id b now (upsert_locked now show_id b rows x) s"
    using Cons.prems upsert_locked_self upsert_locked_other by blast
  from Cons.IH [OF this] show ?case by simp
qed


lemma all_available_set:
  "set (map ss_seat_id (filter (\<lambda>row. ss_show_id row = show_id \<and> ss_seat_id row \<in> set seat_ids) rows)
        @ filter (\<lambda>seatId. seatId \<notin> set (map ss_seat_id
              (filter (\<lambda>row. ss_show_id row = show_id \<and> ss_seat_id row \<in> set seat_ids) rows))) seat_ids)
   = set seat_ids"
  by auto

lemma grant_seats_ungranted:
  "grant_seats now userId show_id ls db tx r = (resp, db', r') \<Longrightarrow> \<not> granted resp \<Longrightarrow>
     resp = Failed \<and> tbl_bookings db' = tbl_bookings db \<and> tbl_show_seats db' = tbl_show_seats db"
  by (auto simp: grant_seats_def insert_booking_def upsert_show_seats_def rollback_def Let_def
           split: prod.splits sum.splits if_splits)

lemma grant_seats_granted:
  assumes "grant_seats now userId show_id ls db tx r = (Seats_Locked b d t, db', r')"
  shows "t = lockTimeout \<and> r' = r \<and>
         (\<forall>s \<in> set ls. held_in show_id b now (tbl_show_seats db') s) \<and>
         \<lparr>bk_booking_id = b, bk_user_id = userId, bk_show_id = show_id,
           bk_status = PENDING, bk_created_at = Some now\<rparr> \<in> set (tbl_bookings db')"
proof -
  have "\<forall>s \<in> {} \<union> set ls. held_in show_id b now (foldl (upsert_locked now show_id b) rows ls) s" for rows
    by (rule foldl_upsert_held) simp
  then show ?thesis using assms
    by (auto simp: grant_seats_def insert_booking_def upsert_show_seats_def commit_def Let_def
           split: prod.splits sum.splits if_splits)
qed

lemma lockSeats_ungranted:
  assumes "lockSeats now userId show_id seat_ids_opt db r = (resp, db', r')" and "\<not> granted resp"
  shows "tbl_bookings db' = tbl_bookings db \<and> tbl_show_seats db' = tbl_show_seats db"
  using assms unfolding lockSeats_def Let_def
  by (auto simp: rollback_def split: if_splits prod.splits acquired.splits dest: grant_seats_ungranted)

lemma grant_seats_store:
  "grant_seats now userId show_id ls db tx r = (resp, db', r') \<Longrightarrow> r' = r"
  by (auto simp: grant_seats_def Let_def split: prod.splits sum.splits if_splits)

lemma lockSeats_granted:
  assumes "lockSeats now userId show_id (Some seat_ids) db r = (Seats_Locked b d t, db', r')"
  shows "\<exists>all ls. set all = set seat_ids \<and> acquire_locks show_id userId all [] [] r = (All_Locked ls, r')
           \<and> grant_seats now userId show_id ls db db r' = (Seats_Locked b d t, db', r')"
proof -
  define all where "all =
     map ss_seat_id (filter (\<lambda>row. ss_show_id row = show_id \<and> ss_seat_id row \<in> set seat_ids) (tbl_show_seats db))
        @ filter (\<lambda>seatId. seatId \<notin> set (map ss_seat_id
              (filter (\<lambda>row. ss_show_id row = show_id \<and> ss_seat_id row \<in> set seat_ids) (tbl_show_seats db)))) seat_ids"
  have "set all = set seat_ids"
    unfolding all_def by (rule all_available_set)
  moreover have "\<exists>ls. acquire_locks show_id userId all [] [] r = (All_Locked ls, r')
           \<and> grant_seats now userId show_id ls db db r' = (Seats_Locked b d t, db', r')"
    using assms unfolding lockSeats_def Let_def all_def
    by (auto split: if_splits prod.splits acquired.splits dest: grant_seats_store)
  ultimately show ?thesis by blast
qed

lemma lockSeats_store_restored:
  assumes "lockSeats now userId show_id seat_ids_opt db r = (resp, db', r')"
      and "reliable r" and "\<not> granted resp" and "resp \<noteq> Failed"
  shows "kv r' = kv r"
proof -
  have ref: "kv r1 = kv r" if "acquire_locks show_id userId all [] [] r = (Refused ls, r1)" for all ls r1
    using acquire_locks_inv [OF that, of r] assms(2) by simp
  show ?thesis
    using assms unfolding lockSeats_def Let_def
    by (auto split: if_splits prod.splits acquired.splits dest: grant_seats_ungranted ref)
qed

lemma set_nx_reliable:
  "reliable r \<Longrightarrow> redis_set_ex_nx k v ttl r = (res, r') \<Longrightarrow> \<not> isl res \<and> reliable r'"
  by (cases "faults r") (auto simp: redis_set_ex_nx_def tick_def reliable_def split: if_splits)

lemma acquire_locks_reliable:
  "reliable r \<Longrightarrow> fst (acquire_locks show_id userId seats ls ks r) \<noteq> Threw"
proof (induction seats arbitrary: ls ks r)
  case Nil
  then show ?case by simp
next
  case (Cons seatId rest)
  obtain res1 r1 where
    s1: "redis_set_ex_nx (SeatLock show_id seatId) (Num (int userId)) lockTimeout r = (res1, r1)"
    by (metis prod.exhaust)
  from set_nx_reliable [OF Cons.prems s1] have ok: "\<not> isl res1" "reliable r1" by auto
  then obtain b where b: "res1 = Inr b" by (cases res1) auto
  show ?case
  proof (cases b)
    case True
    with s1 b Cons.IH [OF ok(2)] show ?thesis by simp
  next
    case False
    from release_keys_reliable [OF ok(2), of ks] obtain r2 where
      "release_keys ks r1 = (Inr (), r2)" by blast
    with s1 b False show ?thesis by simp
  qed
qed

lemma lockSeats_unavailable:
  assumes "seat_ids \<noteq> []" and "ids_in_range show_id seat_ids"
      and "filter (\<lambda>row. sh_show_id row = show_id) (tbl_shows db) \<noteq> []"
      and "filter (\<lambda>row. ss_status row \<noteq> AVAILABLE) (targeted show_id seat_ids db) \<noteq> []"
  shows "lockSeats now userId show_id (Some seat_ids) db r =
           (Seats_Unavailable (map ss_seat_id
              (filter (\<lambda>row. ss_status row \<noteq> AVAILABLE) (targeted show_id seat_ids db))), db, r)"
  using assms unfolding lockSeats_def Let_def targeted_def ids_in_range_def
  by (simp add: rollback_def)

lemma lockSeats_out_of_range:
  assumes "seat_ids \<noteq> []" and "\<not> ids_in_range show_id seat_ids"
      and "in_int4 show_id \<longrightarrow> filter (\<lambda>row. sh_show_id row = show_id) (tbl_shows db) \<noteq> []"
  shows "lockSeats now userId show_id (Some seat_ids) db r = (Failed, db, r)"
  using assms unfolding lockSeats_def Let_def ids_in_range_def
  by (auto simp: rollback_def)

lemma lockSeats_held_key:
  assumes "lockSeats now userId show_id (Some seat_ids) db r = (resp, db', r')"
      and "reliable r" and "s \<in> set seat_ids" and "kv r (SeatLock show_id s) \<noteq> None"
  shows "\<not> granted resp \<and> kv r' = kv r"
proof -
  have ng: "\<not> granted resp"
  proof
    assume "granted resp"
    then obtain b d t where resp: "resp = Seats_Locked b d t" by (cases resp) auto
    from lockSeats_granted [OF assms(1) [unfolded resp]] obtain all ls where
      al: "set all = set seat_ids" "acquire_locks show_id userId all [] [] r = (All_Locked ls, r')"
      by blast
    from acquire_locks_inv [OF al(2), of r] have
      "ls = all" "\<forall>s \<in> set ls. kv r (SeatLock show_id s) = None" by auto
    with al(1) assms(3,4) show False by auto
  qed
  have ref: "kv r1 = kv r" if "acquire_locks show_id userId all [] [] r = (Refused ls, r1)" for all ls r1
    using acquire_locks_inv [OF that, of r] assms(2) by simp
  have thr: False if "acquire_locks show_id userId all [] [] r = (Threw, r1)" for all r1
    using acquire_locks_reliable [OF assms(2), of show_id userId all "[]" "[]"] that by simp
  define all where "all =
     map ss_seat_id (filter (\<lambda>row. ss_show_id row = show_id \<and> ss_seat_id row \<in> set seat_ids) (tbl_show_seats db))
        @ filter (\<lambda>seatId. seatId \<notin> set (map ss_seat_id
              (filter (\<lambda>row. ss_show_id row = show_id \<and> ss_seat_id row \<in> set seat_ids) (tbl_show_seats db)))) seat_ids"
  have "set all = set seat_ids"
    unfolding all_def by (rule all_available_set)
  with assms(3) have mem: "s \<in> set all" by simp
  have al: False if "acquire_locks show_id userId all [] [] r = (All_Locked ls, r1)" for ls r1
    using acquire_locks_inv [OF that, of r] mem assms(4) by auto
  have "kv r' = kv r"
    using assms(1) ng al unfolding lockSeats_def Let_def all_def
    by (auto simp: rollback_def split: if_splits prod.splits acquired.splits dest: ref thr)
  with ng show ?thesis by simp
qed

text \<open>
  Claim C1 as stated fails. Seat 2 of show 1 is BOOKED and the request names it together
  with the seat id 2147483648, which the schema of the request admits and the integer
  column does not: the SELECT FOR UPDATE throws, and the answer is 500 instead of the 409
  that lists seat 2.
\<close>

theorem lockSeats_out_of_range_500:
  "filter (\<lambda>row. ss_status row \<noteq> AVAILABLE) (targeted 1 [2, 2147483648] example_db_taken)
     = [\<lparr>ss_show_id = 1, ss_seat_id = 2, ss_status = BOOKED, ss_booking_id = Some 1,
         ss_locked_at = Some 0\<rparr>] \<and>
   fst (lockSeats 1000 5 1 (Some [2, 2147483648]) example_db_taken empty_store) = Failed \<and>
   http_status (fst (lockSeats 1000 5 1 (Some [2, 2147483648]) example_db_taken empty_store)) = 500"
  by (simp add: lockSeats_def targeted_def example_db_taken_def example_seats_def in_int4_def
                int4_max_def rollback_def empty_store_def)

text \<open>
  Claim C1, amended. A call of lockSeats with a seat list either answers 200, and then every
  requested seat is held for the new PENDING booking, whose row exists, and every requested
  seat's lock entry was free before and belongs to the requester after; or it does not
  grant, and then the bookings and show_seats tables are as before. For a request whose ids
  fit the integer columns, with a seat list that is not empty and a show that exists: when a
  targeted row is not AVAILABLE, the answer is 409 with exactly the seat ids of those rows,
  and neither store changes. When no round trip of the lock store throws: a request for a
  seat whose lock entry is held is not granted and the lock store has its entries of before;
  and after every 409 answer the lock store has its entries of before, so every lock acquired
  in the call was deleted. A request with an id that does not fit the integer columns, for a
  show that exists if its id fits, is answered 500, and neither store changes.
\<close>

theorem lockSeats_all_or_nothing:
  assumes "lockSeats now userId show_id (Some seat_ids) db r = (resp, db', r')"
  shows "((\<exists>bookingId details.
             resp = Seats_Locked bookingId details lockTimeout \<and>
             (\<forall>s \<in> set seat_ids. held_in show_id bookingId now (tbl_show_seats db') s) \<and>
             \<lparr>bk_booking_id = bookingId, bk_user_id = userId, bk_show_id = show_id,
               bk_status = PENDING, bk_created_at = Some now\<rparr> \<in> set (tbl_bookings db') \<and>
             (\<forall>s \<in> set seat_ids. kv r (SeatLock show_id s) = None \<and>
                                   kv r' (SeatLock show_id s) = Some (held userId)))
          \<or> (\<not> granted resp \<and> tables_unchanged db db'))
       \<and> (ids_in_range show_id seat_ids \<and> seat_ids \<noteq> [] \<and>
            filter (\<lambda>row. sh_show_id row = show_id) (tbl_shows db) \<noteq> [] \<and>
            filter (\<lambda>row. ss_status row \<noteq> AVAILABLE) (targeted show_id seat_ids db) \<noteq> [] \<longrightarrow>
              resp = Seats_Unavailable (map ss_seat_id
                       (filter (\<lambda>row. ss_status row \<noteq> AVAILABLE) (targeted show_id seat_ids db))) \<and>
              db' = db \<and> r' = r)
       \<and> (reliable r \<and> (\<exists>s \<in> set seat_ids. kv r (SeatLock show_id s) \<noteq> None) \<longrightarrow>
              \<not> granted resp \<and> kv r' = kv r)
       \<and> (reliable r \<and> (\<exists>failed_seats. resp = Seats_Unavailable failed_seats) \<longrightarrow> kv r' = kv r)
       \<and> (\<not> ids_in_range show_id seat_ids \<and> seat_ids \<noteq> [] \<and>
            (in_int4 show_id \<longrightarrow> filter (\<lambda>row. sh_show_id row = show_id) (tbl_shows db) \<noteq> []) \<longrightarrow>
              resp = Failed \<and> db' = db \<and> r' = r)"
proof -
  have grant_or_none:
    "(\<exists>bookingId details.
             resp = Seats_Locked bookingId details lockTimeout \<and>
             (\<forall>s \<in> set seat_ids. held_in show_id bookingId now (tbl_show_seats db') s) \<and>
             \<lparr>bk_booking_id = bookingId, bk_user_id = userId, bk_show_id = show_id,
               bk_status = PENDING, bk_created_at = Some now\<rparr> \<in> set (tbl_bookings db') \<and>
             (\<forall>s \<in> set seat_ids. kv r (SeatLock show_id s) = None \<and>
                                   kv r' (SeatLock show_id s) = Some (held userId)))
          \<or> (\<not> granted resp \<and> tables_unchanged db db')"
  proof (cases "granted resp")
    case False
    with lockSeats_ungranted [OF assms] show ?thesis
      by (simp add: tables_unchanged_def)
  next
    case True
    then obtain b d t where resp: "resp = Seats_Locked b d t"
      by (cases resp) auto
    from lockSeats_granted [OF assms [unfolded resp]] obtain all ls where
      al: "set all = set seat_ids"
          "acquire_locks show_id userId all [] [] r = (All_Locked ls, r')"
          "grant_seats now userId show_id ls db db r' = (Seats_Locked b d t, db', r')"
      by blast
    from acquire_locks_inv [OF al(2), of r] have
      ls: "ls = all"
          "\<forall>s \<in> set ls. kv r (SeatLock show_id s) = None"
          "kv r' = (\<lambda>k. if k \<in> SeatLock show_id ` set ls then Some (held userId) else kv r k)"
      by auto
    from grant_seats_granted [OF al(3)] have
      g: "t = lockTimeout"
         "\<forall>s \<in> set ls. held_in show_id b now (tbl_show_seats db') s"
         "\<lparr>bk_booking_id = b, bk_user_id = userId, bk_show_id = show_id,
               bk_status = PENDING, bk_created_at = Some now\<rparr> \<in> set (tbl_bookings db')"
      by auto
    have "\<forall>s \<in> set seat_ids. kv r (SeatLock show_id s) = None \<and>
                                   kv r' (SeatLock show_id s) = Some (held userId)"
      using ls al(1) by auto
    with resp g ls(1) al(1) show ?thesis by auto
  qed
  have unavailable:
    "resp = Seats_Unavailable (map ss_seat_id
              (filter (\<lambda>row. ss_status row \<noteq> AVAILABLE) (targeted show_id seat_ids db))) \<and>
     db' = db \<and> r' = r"
    if "ids_in_range show_id seat_ids" "seat_ids \<noteq> []"
       "filter (\<lambda>row. sh_show_id row = show_id) (tbl_shows db) \<noteq> []"
       "filter (\<lambda>row. ss_status row \<noteq> AVAILABLE) (targeted show_id seat_ids db) \<noteq> []"
    using assms unfolding lockSeats_unavailable [OF that(2,1,3,4)] by auto
  have held_key: "\<not> granted resp \<and> kv r' = kv r"
    if "reliable r" "s \<in> set seat_ids" "kv r (SeatLock show_id s) \<noteq> None" for s
    using lockSeats_held_key [OF assms that] .
  have refused: "kv r' = kv r" if "reliable r" "resp = Seats_Unavailable fs" for fs
    using lockSeats_store_restored [OF assms that(1)] that(2) by simp
  have out_of_range: "resp = Failed \<and> db' = db \<and> r' = r"
    if "\<not> ids_in_range show_id seat_ids" "seat_ids \<noteq> []"
       "in_int4 show_id \<longrightarrow> filter (\<lambda>row. sh_show_id row = show_id) (tbl_shows db) \<noteq> []"
    using assms unfolding lockSeats_out_of_range [OF that(2,1,3)] by auto
  show ?thesis
    using grant_or_none unavailable held_key refused out_of_range by blast
qed

lemmas eval_defs = lockSeats_def grant_seats_def insert_booking_def upsert_show_seats_def
  upsert_locked_def redis_set_ex_nx_def redis_del_def tick_def commit_def rollback_def
  example_db_def example_db_taken_def example_seats_def empty_store_def contended_store_def
  Let_def lockTimeout_def held_def in_int4_def int4_max_def

text \<open>
  The theorem at four requests for show 1: seats 1 and 2 both free (granted); the lock of
  seat 2 held by another process (409, the lock of seat 1 released again); seat 2 booked
  already (409 with seat 2, nothing touched); and seat 2 with a seat id beyond the integer
  column (500, nothing touched).
\<close>

theorem lockSeats_all_or_nothing_witness:
  "granted (fst (lockSeats 1000 5 1 (Some [1, 2]) example_db empty_store)) \<and>
   held_in 1 1 1000 (tbl_show_seats (fst (snd (lockSeats 1000 5 1 (Some [1, 2]) example_db empty_store)))) 1 \<and>
   held_in 1 1 1000 (tbl_show_seats (fst (snd (lockSeats 1000 5 1 (Some [1, 2]) example_db empty_store)))) 2 \<and>
   kv (snd (snd (lockSeats 1000 5 1 (Some [1, 2]) example_db empty_store))) (SeatLock 1 2) = Some (held 5) \<and>
   reliable contended_store \<and>
   kv contended_store (SeatLock 1 2) = Some (held 9) \<and>
   fst (lockSeats 1000 5 1 (Some [1, 2]) example_db contended_store) = Seats_Unavailable [2] \<and>
   tables_unchanged example_db (fst (snd (lockSeats 1000 5 1 (Some [1, 2]) example_db contended_store))) \<and>
   kv (snd (snd (lockSeats 1000 5 1 (Some [1, 2]) example_db contended_store))) = kv contended_store \<and>
   ids_in_range 1 [1, 2] \<and>
   filter (\<lambda>row. ss_status row \<noteq> AVAILABLE) (targeted 1 [1, 2] example_db_taken) \<noteq> [] \<and>
   lockSeats 1000 5 1 (Some [1, 2]) example_db_taken empty_store =
     (Seats_Unavailable [2], example_db_taken, empty_store) \<and>
   \<not> ids_in_range 1 [2, 2147483648] \<and>
   lockSeats 1000 5 1 (Some [2, 2147483648]) example_db_taken empty_store =
     (Failed, example_db_taken, empty_store)"
proof -
  obtain resp1 db1 r1 where run1:
    "lockSeats 1000 5 1 (Some [1, 2]) example_db empty_store = (resp1, db1, r1)"
    by (metis prod_cases3)
  have g1: "resp1 = Seats_Locked 1 (take 2 example_seats) 600"
    using run1 by (auto simp: eval_defs)
  obtain resp2 db2 r2 where run2:
    "lockSeats 1000 5 1 (Some [1, 2]) example_db contended_store = (resp2, db2, r2)"
    by (metis prod_cases3)
  have g2: "reliable contended_store" "kv contended_store (SeatLock 1 2) = Some (held 9)"
    by (simp_all add: reliable_def contended_store_def)
  have e2: "resp2 = Seats_Unavailable [2]"
    using run2 by (auto simp: eval_defs)
  obtain resp3 db3 r3 where run3:
    "lockSeats 1000 5 1 (Some [1, 2]) example_db_taken empty_store = (resp3, db3, r3)"
    by (metis prod_cases3)
  have g3: "filter (\<lambda>row. ss_status row \<noteq> AVAILABLE) (targeted 1 [1, 2] example_db_taken)
              = [\<lparr>ss_show_id = 1, ss_seat_id = 2, ss_status = BOOKED, ss_booking_id = Some 1,
                  ss_locked_at = Some 0\<rparr>]"
          "filter (\<lambda>row. sh_show_id row = 1) (tbl_shows example_db_taken) \<noteq> []"
          "ids_in_range 1 [1, 2]"
    by (simp_all add: targeted_def example_db_taken_def ids_in_range_def in_int4_def int4_max_def)
  obtain resp4 db4 r4 where run4:
    "lockSeats 1000 5 1 (Some [2, 2147483648]) example_db_taken empty_store = (resp4, db4, r4)"
    by (metis prod_cases3)
  have g4: "\<not> ids_in_range 1 [2, 2147483648]"
    by (simp add: ids_in_range_def in_int4_def int4_max_def)
  from lockSeats_all_or_nothing [OF run1] g1
  have c1: "held_in 1 1 1000 (tbl_show_seats db1) 1" "held_in 1 1 1000 (tbl_show_seats db1) 2"
           "kv r1 (SeatLock 1 2) = Some (held 5)"
    by auto
  from lockSeats_all_or_nothing [OF run2] g2 e2
  have c2: "tables_unchanged example_db db2" "kv r2 = kv contended_store"
    by auto
  from lockSeats_all_or_nothing [OF run3] g3
  have c3: "resp3 = Seats_Unavailable [2]" "db3 = example_db_taken" "r3 = empty_store"
    by auto
  from lockSeats_all_or_nothing [OF run4] g3(2) g4
  have c4: "resp4 = Failed" "db4 = example_db_taken" "r4 = empty_store"
    by auto
  show ?thesis
    using run1 run2 run3 run4 g1 g2 e2 g3 g4 c1 c2 c3 c4 by simp
qed

text \<open>
  The amended claim is silent about a call in which an operation throws after a lock was
  acquired: the catch block rolls back and answers 500 without deleting the keys in
  \<open>redisLockKeys\<close>. Here the lock of seat 1 is acquired, the lock of seat 2 is refused,
  and the deletion of seat 1's key throws: nothing is committed, and the entry of seat 1
  stays in the lock store with its time to live.
\<close>

lemma lockSeats_throw_leaves_lock:
  "kv contended_flaky_store (SeatLock 1 1) = None \<and>
   fst (lockSeats 1000 5 1 (Some [1, 2]) example_db contended_flaky_store) = Failed \<and>
   fst (snd (lockSeats 1000 5 1 (Some [1, 2]) example_db contended_flaky_store)) = example_db \<and>
   kv (snd (snd (lockSeats 1000 5 1 (Some [1, 2]) example_db contended_flaky_store))) (SeatLock 1 1)
     = Some (held 5)"
  by (simp add: eval_defs contended_flaky_store_def)

section \<open>lockSeats rejects an empty request first\<close>

text \<open>
  Claim C8. A request whose seat list is missing or empty is answered 400 before the
  transaction begins and before any round trip to the lock store: the committed state and
  the lock store, its schedule included, are returned as they were.
\<close>

theorem lockSeats_empty_rejected:
  "seat_ids = None \<or> seat_ids = Some [] \<Longrightarrow>
     lockSeats now userId show_id seat_ids db r = (At_Least_One_Seat, db, r) \<and>
     http_status At_Least_One_Seat = 400"
  by (auto simp: lockSeats_def)

theorem lockSeats_empty_rejected_witness:
  "lockSeats 1000 5 1 (Some []) example_db contended_store = (At_Least_One_Seat, example_db, contended_store) \<and>
   lockSeats 1000 5 1 None example_db contended_store = (At_Least_One_Seat, example_db, contended_store)"
  using lockSeats_empty_rejected [of "Some []" 1000 5 1 example_db contended_store]
        lockSeats_empty_rejected [of None 1000 5 1 example_db contended_store]
  by simp


lemmas confirm_defs = confirmBooking_def confirm_expired_def confirm_commit_def
  update_show_seats_def update_bookings_def release_seat_def set_booking_status_def
  booking_seat_details_def lock_expired_def del_if_any_def cancelBooking_def
  cleanupExpiredBookings_def booking_expired_def timeoutMinutes_def
  example_db_pending_def holder_store_def example_db_orphan_def

section \<open>confirmBooking without locked seats\<close>

text \<open>
  Claim C10. When the requester's booking is PENDING and no row of show_seats owned by it
  is LOCKED, confirmBooking answers 400 (no locked seats found) after ROLLBACK: the
  committed state and the lock store are returned as they were.
\<close>

theorem confirm_without_locked_seats:
  assumes "filter (\<lambda>row. bk_booking_id row = booking_id \<and> bk_user_id row = userId) (tbl_bookings db)
             = booking # others"
      and "bk_status booking = PENDING"
      and "\<forall>row \<in> set (tbl_show_seats db). ss_booking_id row = Some booking_id \<longrightarrow> ss_status row \<noteq> LOCKED"
  shows "confirmBooking now userId booking_id db r = (No_Locked_Seats, db, r) \<and>
         http_status No_Locked_Seats = 400"
proof -
  have "filter (\<lambda>row. ss_booking_id row = Some booking_id \<and> ss_status row = LOCKED) (tbl_show_seats db) = []"
    using assms(3) by (auto simp: filter_empty_conv)
  then show ?thesis
    using assms(1,2) by (simp add: confirmBooking_def rollback_def)
qed

theorem confirm_without_locked_seats_witness:
  "filter (\<lambda>row. bk_booking_id row = 1 \<and> bk_user_id row = 5) (tbl_bookings example_db_orphan)
     = [\<lparr>bk_booking_id = 1, bk_user_id = 5, bk_show_id = 1, bk_status = PENDING,
          bk_created_at = Some 1000\<rparr>] \<and>
   confirmBooking 2000 5 1 example_db_orphan holder_store = (No_Locked_Seats, example_db_orphan, holder_store)"
proof -
  have a: "filter (\<lambda>row. bk_booking_id row = 1 \<and> bk_user_id row = 5) (tbl_bookings example_db_orphan)
     = \<lparr>bk_booking_id = 1, bk_user_id = 5, bk_show_id = 1, bk_status = PENDING,
          bk_created_at = Some 1000\<rparr> # []"
    by (simp add: example_db_orphan_def)
  have b: "bk_status \<lparr>bk_booking_id = 1, bk_user_id = 5, bk_show_id = 1, bk_status = PENDING,
          bk_created_at = Some 1000\<rparr> = PENDING" by simp
  have c: "\<forall>row \<in> set (tbl_show_seats example_db_orphan). ss_booking_id row = Some 1 \<longrightarrow> ss_status row \<noteq> LOCKED"
    by (simp add: example_db_orphan_def)
  from confirm_without_locked_seats [OF a b c, of 2000 holder_store] a show ?thesis by simp
qed

section \<open>confirmBooking on an expired hold\<close>

text \<open>
  Claim C2, at a concrete input. Booking 1 was locked at time 1000 and is confirmed at time
  700000, after the hold window. confirmBooking answers 410 (the booking has been
  cancelled) and deletes the two lock entries, but its transaction ends with ROLLBACK: the
  committed state is the one before, the booking PENDING and both seats LOCKED. The sweep
  at the same time commits the booking CANCELLED and both seats AVAILABLE.
\<close>

theorem confirm_expired_rolls_back:
  "fst (confirmBooking 700000 5 1 example_db_pending holder_store) = Locks_Expired [1, 2] \<and>
   http_status (Locks_Expired [1, 2]) = 410 \<and>
   fst (snd (confirmBooking 700000 5 1 example_db_pending holder_store)) = example_db_pending \<and>
   map bk_status (tbl_bookings (fst (snd (confirmBooking 700000 5 1 example_db_pending holder_store))))
     = [PENDING] \<and>
   map ss_status (tbl_show_seats (fst (snd (confirmBooking 700000 5 1 example_db_pending holder_store))))
     = [LOCKED, LOCKED] \<and>
   kv (snd (snd (confirmBooking 700000 5 1 example_db_pending holder_store))) (SeatLock 1 1) = None \<and>
   kv (snd (snd (confirmBooking 700000 5 1 example_db_pending holder_store))) (SeatLock 1 2) = None \<and>
   fst (cleanupExpiredBookings 700000 example_db_pending holder_store) = Cleanup_Completed 1 \<and>
   map bk_status (tbl_bookings (fst (snd (cleanupExpiredBookings 700000 example_db_pending holder_store))))
     = [CANCELLED] \<and>
   map ss_status (tbl_show_seats (fst (snd (cleanupExpiredBookings 700000 example_db_pending holder_store))))
     = [AVAILABLE, AVAILABLE]"
  by (simp add: confirm_defs eval_defs)

section \<open>lockSeats and seat ids without a row\<close>

text \<open>
  Claim C7 as stated fails. Seat 99 has no row for show 1 and is a seat of no venue, and
  seat 2 of the same request is BOOKED. The check of the targeted rows comes first: the
  answer is 409 with seat 2, and seat 99 is not reported as invalid.
\<close>

theorem invalid_seat_hidden_by_conflict:
  "filter (\<lambda>row. ss_show_id row = 1 \<and> ss_seat_id row = 99) (tbl_show_seats example_db_taken) = [] \<and>
   filter (\<lambda>row. st_seat_id row = 99) (tbl_seats example_db_taken) = [] \<and>
   fst (lockSeats 1000 5 1 (Some [2, 99]) example_db_taken empty_store) = Seats_Unavailable [2] \<and>
   http_status (fst (lockSeats 1000 5 1 (Some [2, 99]) example_db_taken empty_store)) = 409"
  by (simp add: eval_defs)

text \<open>
  Claim C7, amended. A request with a seat id that has no row of show_seats for the show
  and that the seats table does not have at all is never granted, and leaves the committed
  state and the lock store as they were. When the show exists and the ids of the request
  fit the integer columns, the seat id is among the invalid seat ids of a 400 answer if
  every targeted row is AVAILABLE, and the answer is 409 with the seat ids of the
  unavailable rows otherwise. When an id of the request does not fit the integer columns,
  and the show exists if its id fits, the answer is 500.
\<close>

theorem lockSeats_unknown_seat:
  assumes "lockSeats now userId show_id (Some seat_ids) db r = (resp, db', r')"
      and "seatId \<in> set seat_ids"
      and "no_row_for show_id seatId db" and "unknown_seat seatId db"
  shows "\<not> granted resp \<and> db' = db \<and> r' = r
       \<and> (ids_in_range show_id seat_ids \<and>
          filter (\<lambda>row. sh_show_id row = show_id) (tbl_shows db) \<noteq> [] \<and>
          filter (\<lambda>row. ss_status row \<noteq> AVAILABLE) (targeted show_id seat_ids db) = [] \<longrightarrow>
            (\<exists>invalid. resp = Invalid_Seat_IDs invalid \<and> seatId \<in> set invalid) \<and>
            http_status resp = 400)
       \<and> (ids_in_range show_id seat_ids \<and>
          filter (\<lambda>row. sh_show_id row = show_id) (tbl_shows db) \<noteq> [] \<and>
          filter (\<lambda>row. ss_status row \<noteq> AVAILABLE) (targeted show_id seat_ids db) \<noteq> [] \<longrightarrow>
            resp = Seats_Unavailable (map ss_seat_id
                     (filter (\<lambda>row. ss_status row \<noteq> AVAILABLE) (targeted show_id seat_ids db))))
       \<and> (\<not> ids_in_range show_id seat_ids \<and>
          (in_int4 show_id \<longrightarrow> filter (\<lambda>row. sh_show_id row = show_id) (tbl_shows db) \<noteq> []) \<longrightarrow>
            resp = Failed \<and> http_status resp = 500)"
proof -
  have ne: "seat_ids \<noteq> []" using assms(2) by auto
  have new: "seatId \<notin> set (map ss_seat_id
                (filter (\<lambda>row. ss_show_id row = show_id \<and> ss_seat_id row \<in> set seat_ids)
                   (tbl_show_seats db)))"
    using assms(3) by (auto simp: no_row_for_def filter_empty_conv)
  have unk: "seatId \<notin> set (map st_seat_id (filter (\<lambda>row. st_seat_id row \<in> S) (tbl_seats db)))" for S
    using assms(4) by (auto simp: unknown_seat_def filter_empty_conv)
  let ?newSeats = "filter (\<lambda>s. s \<notin> set (map ss_seat_id
                (filter (\<lambda>row. ss_show_id row = show_id \<and> ss_seat_id row \<in> set seat_ids)
                   (tbl_show_seats db)))) seat_ids"
  have out_of_range: "resp = Failed \<and> http_status resp = 500"
    if "\<not> ids_in_range show_id seat_ids"
       "in_int4 show_id \<longrightarrow> filter (\<lambda>row. sh_show_id row = show_id) (tbl_shows db) \<noteq> []"
    using assms(1) unfolding lockSeats_out_of_range [OF ne that] by auto
  have in_range:
    "\<not> granted resp \<and> db' = db \<and> r' = r
       \<and> (ids_in_range show_id seat_ids \<and>
          filter (\<lambda>row. sh_show_id row = show_id) (tbl_shows db) \<noteq> [] \<and>
          filter (\<lambda>row. ss_status row \<noteq> AVAILABLE) (targeted show_id seat_ids db) = [] \<longrightarrow>
            (\<exists>invalid. resp = Invalid_Seat_IDs invalid \<and> seatId \<in> set invalid) \<and>
            http_status resp = 400)
       \<and> (ids_in_range show_id seat_ids \<and>
          filter (\<lambda>row. sh_show_id row = show_id) (tbl_shows db) \<noteq> [] \<and>
          filter (\<lambda>row. ss_status row \<noteq> AVAILABLE) (targeted show_id seat_ids db) \<noteq> [] \<longrightarrow>
            resp = Seats_Unavailable (map ss_seat_id
                     (filter (\<lambda>row. ss_status row \<noteq> AVAILABLE) (targeted show_id seat_ids db))))"
    using assms(1,2) ne new unk [of "set ?newSeats"]
    unfolding lockSeats_def Let_def targeted_def ids_in_range_def
    by (auto simp: rollback_def filter_empty_conv split: if_splits)
  show ?thesis
    using in_range out_of_range by blast
qed

text \<open>
  The theorem at three requests for show 1 with an id that no table has: seat 99 beside
  the free seat 1 (400 with seat 99), seat 99 beside the booked seat 2 (409 with seat 2),
  and the seat id 2147483648 beside the free seat 1 (500).
\<close>

theorem lockSeats_unknown_seat_witness:
  "no_row_for 1 99 example_db \<and> unknown_seat 99 example_db \<and> ids_in_range 1 [1, 99] \<and>
   lockSeats 1000 5 1 (Some [1, 99]) example_db empty_store
     = (Invalid_Seat_IDs [99], example_db, empty_store) \<and>
   no_row_for 1 99 example_db_taken \<and> unknown_seat 99 example_db_taken \<and>
   ids_in_range 1 [2, 99] \<and>
   lockSeats 1000 5 1 (Some [2, 99]) example_db_taken empty_store
     = (Seats_Unavailable [2], example_db_taken, empty_store) \<and>
   no_row_for 1 2147483648 example_db \<and> unknown_seat 2147483648 example_db \<and>
   \<not> ids_in_range 1 [1, 2147483648] \<and>
   lockSeats 1000 5 1 (Some [1, 2147483648]) example_db empty_store
     = (Failed, example_db, empty_store) \<and>
   http_status Failed = 500"
proof -
  obtain resp1 db1 r1 where run1:
    "lockSeats 1000 5 1 (Some [1, 99]) example_db empty_store = (resp1, db1, r1)"
    by (metis prod_cases3)
  obtain resp2 db2 r2 where run2:
    "lockSeats 1000 5 1 (Some [2, 99]) example_db_taken empty_store = (resp2, db2, r2)"
    by (metis prod_cases3)
  obtain resp3 db3 r3 where run3:
    "lockSeats 1000 5 1 (Some [1, 2147483648]) example_db empty_store = (resp3, db3, r3)"
    by (metis prod_cases3)
  have h1: "no_row_for 1 99 example_db" "unknown_seat 99 example_db"
           "filter (\<lambda>row. sh_show_id row = 1) (tbl_shows example_db) \<noteq> []"
           "filter (\<lambda>row. ss_status row \<noteq> AVAILABLE) (targeted 1 [1, 99] example_db) = []"
           "ids_in_range 1 [1, 99]"
    by (simp_all add: no_row_for_def unknown_seat_def targeted_def example_db_def example_seats_def
                      ids_in_range_def in_int4_def int4_max_def)
  have h2: "no_row_for 1 99 example_db_taken" "unknown_seat 99 example_db_taken"
           "filter (\<lambda>row. sh_show_id row = 1) (tbl_shows example_db_taken) \<noteq> []"
           "filter (\<lambda>row. ss_status row \<noteq> AVAILABLE) (targeted 1 [2, 99] example_db_taken)
              = [\<lparr>ss_show_id = 1, ss_seat_id = 2, ss_status = BOOKED, ss_booking_id = Some 1,
                  ss_locked_at = Some 0\<rparr>]"
           "ids_in_range 1 [2, 99]"
    by (simp_all add: no_row_for_def unknown_seat_def targeted_def example_db_taken_def example_seats_def
                      ids_in_range_def in_int4_def int4_max_def)
  have h3: "no_row_for 1 2147483648 example_db" "unknown_seat 2147483648 example_db"
           "\<not> ids_in_range 1 [1, 2147483648]"
    by (simp_all add: no_row_for_def unknown_seat_def example_db_def example_seats_def
                      ids_in_range_def in_int4_def int4_max_def)
  have e1: "resp1 = Invalid_Seat_IDs [99]" using run1 by (auto simp: eval_defs)
  from lockSeats_unknown_seat [OF run1 _ h1(1,2)]
  have c1: "db1 = example_db" "r1 = empty_store" by auto
  from lockSeats_unknown_seat [OF run2 _ h2(1,2)] h2(3,4,5)
  have c2: "resp2 = Seats_Unavailable [2]" "db2 = example_db_taken" "r2 = empty_store" by auto
  from lockSeats_unknown_seat [OF run3 _ h3(1,2)] h1(3) h3(3)
  have c3: "resp3 = Failed" "db3 = example_db" "r3 = empty_store" by auto
  show ?thesis using h1 h2 h3 run1 run2 run3 e1 c1 c2 c3 by simp
qed

text \<open>
  The amended claim is silent about a seat id that the seats table has under another
  venue. The check of new seats is made without the venue: show 1 plays at venue 1, seat 7
  belongs to venue 2 and has no row for the show, and the request for it is granted.
\<close>

lemma lockSeats_other_venue_granted:
  "map sh_venue_id (filter (\<lambda>row. sh_show_id row = 1) (tbl_shows example_db)) = [1] \<and>
   map st_venue_id (filter (\<lambda>row. st_seat_id row = 7) (tbl_seats example_db)) = [2] \<and>
   targeted 1 [7] example_db = [] \<and>
   fst (lockSeats 1000 5 1 (Some [7]) example_db empty_store)
     = Seats_Locked 1 [\<lparr>st_seat_id = 7, st_venue_id = 2, st_seat_row = ''A'', st_seat_number = 1\<rparr>] 600 \<and>
   tbl_show_seats (fst (snd (lockSeats 1000 5 1 (Some [7]) example_db empty_store)))
     = tbl_show_seats example_db @
       [\<lparr>ss_show_id = 1, ss_seat_id = 7, ss_status = LOCKED, ss_booking_id = Some 1,
         ss_locked_at = Some 1000\<rparr>]"
  by (simp add: eval_defs targeted_def)


section \<open>The lock timestamp after every operation\<close>

lemma list_all_update:
  "list_all P rows \<Longrightarrow> (\<And>row. P row \<Longrightarrow> wh row \<Longrightarrow> P (st row)) \<Longrightarrow>
     list_all P (map (\<lambda>row. if wh row then st row else row) rows)"
  by (induction rows) auto

lemma seat_consistent_release: "seat_consistent (release_seat row)"
  by (simp add: seat_consistent_def release_seat_def)

lemma upsert_locked_consistent:
  "list_all seat_consistent rows \<Longrightarrow> list_all seat_consistent (upsert_locked now show_id b rows x)"
  unfolding upsert_locked_def
  by (auto intro!: list_all_update simp: seat_consistent_def)

lemma foldl_upsert_consistent:
  "list_all seat_consistent rows \<Longrightarrow>
     list_all seat_consistent (foldl (upsert_locked now show_id b) rows xs)"
  by (induction xs arbitrary: rows) (auto intro: upsert_locked_consistent)

lemma grant_seats_consistent:
  assumes "grant_seats now userId show_id ls db tx r = (resp, db', r')"
      and "list_all seat_consistent (tbl_show_seats db)" and "tbl_show_seats tx = tbl_show_seats db"
  shows "list_all seat_consistent (tbl_show_seats db')"
  using assms foldl_upsert_consistent [of "tbl_show_seats db" now show_id _ ls]
  by (auto simp: grant_seats_def insert_booking_def upsert_show_seats_def commit_def rollback_def Let_def
           split: prod.splits sum.splits if_splits)

lemma lockSeats_consistent:
  assumes "lockSeats now userId show_id seat_ids db r = (resp, db', r')"
      and "list_all seat_consistent (tbl_show_seats db)"
  shows "list_all seat_consistent (tbl_show_seats db')"
proof (cases "granted resp")
  case False
  with lockSeats_ungranted [OF assms(1)] assms(2) show ?thesis by simp
next
  case True
  then obtain b d t where resp: "resp = Seats_Locked b d t" by (cases resp) auto
  have "seat_ids \<noteq> None" using assms(1) resp by (auto simp: lockSeats_def split: if_splits)
  then obtain ids where "seat_ids = Some ids" by auto
  with lockSeats_granted [of now userId show_id ids db r b d t db' r'] assms(1) resp
  obtain ls where "grant_seats now userId show_id ls db db r' = (Seats_Locked b d t, db', r')"
    by auto
  from grant_seats_consistent [OF this assms(2)] show ?thesis by simp
qed

lemma confirmBooking_consistent:
  assumes "confirmBooking now userId booking_id db r = (resp, db', r')"
      and "list_all seat_consistent (tbl_show_seats db)"
  shows "list_all seat_consistent (tbl_show_seats db')"
proof -
  have "list_all seat_consistent
          (map (\<lambda>row. if ss_booking_id row = Some booking_id then row\<lparr>ss_status := BOOKED\<rparr> else row)
             (tbl_show_seats db))"
  proof (rule list_all_update [OF assms(2)])
    fix row assume "seat_consistent row" "ss_booking_id row = Some booking_id"
    then show "seat_consistent (row\<lparr>ss_status := BOOKED\<rparr>)"
      by (cases "ss_status row") (auto simp: seat_consistent_def)
  qed
  then show ?thesis
    using assms
    by (auto simp: confirmBooking_def confirm_expired_def confirm_commit_def rollback_def commit_def
                   update_show_seats_def update_bookings_def Let_def
             split: list.splits if_splits prod.splits sum.splits)
qed

lemma cancelBooking_consistent:
  assumes "cancelBooking userId booking_id db r = (resp, db', r')"
      and "list_all seat_consistent (tbl_show_seats db)"
  shows "list_all seat_consistent (tbl_show_seats db')"
proof -
  have "list_all seat_consistent
          (map (\<lambda>row. if ss_booking_id row = Some booking_id then release_seat row else row)
             (tbl_show_seats db))"
    using assms(2) by (rule list_all_update) (rule seat_consistent_release)
  then show ?thesis
    using assms
    by (auto simp: cancelBooking_def rollback_def commit_def
                   update_show_seats_def update_bookings_def Let_def
             split: list.splits if_splits prod.splits sum.splits)
qed

lemma cleanup_loop_consistent:
  "cleanup_loop bs tx r = (e, tx', r') \<Longrightarrow> list_all seat_consistent (tbl_show_seats tx) \<Longrightarrow>
     list_all seat_consistent (tbl_show_seats tx')"
proof (induction bs arbitrary: tx r)
  case Nil
  then show ?case by simp
next
  case (Cons b bs)
  have step: "list_all seat_consistent
          (map (\<lambda>row. if ss_booking_id row = Some (bk_booking_id b) then release_seat row else row)
             (tbl_show_seats tx))"
    using Cons.prems(2) by (rule list_all_update) (rule seat_consistent_release)
  show ?case
    using Cons.prems(1) step Cons.IH
    by (auto simp: update_show_seats_def update_bookings_def Let_def
             split: prod.splits sum.splits)
qed

lemma cleanup_consistent:
  assumes "cleanupExpiredBookings now db r = (res, db', r')"
      and "list_all seat_consistent (tbl_show_seats db)"
  shows "list_all seat_consistent (tbl_show_seats db')"
  using assms cleanup_loop_consistent [of _ db r _ _ _]
  by (auto simp: cleanupExpiredBookings_def rollback_def commit_def Let_def
           split: prod.splits option.splits)

lemmas op_defs = run_op.simps booking_status_of_def bookings_pkey_def seat_consistent_def
  locked_at_iff_locked_def example_db_cancelled_def

text \<open>
  Claim C3 as stated fails. Booking 1 holds two LOCKED rows stamped 1000, so before the
  call the timestamp is set exactly on the LOCKED rows. confirmBooking inside the hold
  window answers 200 and sets the rows to BOOKED with \<open>UPDATE show_seats SET status\<close>
  alone: the rows are BOOKED and still stamped 1000.
\<close>

theorem confirm_keeps_locked_at:
  "list_all locked_at_iff_locked (tbl_show_seats example_db_pending) \<and>
   fst (confirmBooking 2000 5 1 example_db_pending holder_store)
     = Booking_Confirmed 1 (take 2 example_seats) \<and>
   map ss_status (tbl_show_seats (fst (run_op 2000 (Confirm 5 1) example_db_pending holder_store)))
     = [BOOKED, BOOKED] \<and>
   map ss_locked_at (tbl_show_seats (fst (run_op 2000 (Confirm 5 1) example_db_pending holder_store)))
     = [Some 1000, Some 1000] \<and>
   \<not> list_all locked_at_iff_locked
       (tbl_show_seats (fst (run_op 2000 (Confirm 5 1) example_db_pending holder_store)))"
  by (simp add: confirm_defs eval_defs op_defs)

text \<open>
  Claim C3, amended. Suppose that in every row of show_seats the lock timestamp is set
  exactly when the status is LOCKED or BOOKED, and an AVAILABLE row has no owning booking.
  Then the same holds after lockSeats, confirmBooking, cancelBooking and the sweep, with
  any arguments and any outcome: a transition to AVAILABLE clears the timestamp, and the
  transition of confirmBooking to BOOKED keeps it.
\<close>

theorem locked_at_follows_status:
  assumes "list_all seat_consistent (tbl_show_seats db)"
  shows "list_all seat_consistent (tbl_show_seats (fst (run_op now op db r)))"
proof (cases op)
  case (Lock userId show_id seat_ids)
  then show ?thesis
    using lockSeats_consistent [OF _ assms, of now userId show_id seat_ids r]
    by (cases "lockSeats now userId show_id seat_ids db r") auto
next
  case (Confirm userId booking_id)
  then show ?thesis
    using confirmBooking_consistent [OF _ assms, of now userId booking_id r]
    by (cases "confirmBooking now userId booking_id db r") auto
next
  case (Cancel userId booking_id)
  then show ?thesis
    using cancelBooking_consistent [OF _ assms, of userId booking_id r]
    by (cases "cancelBooking userId booking_id db r") auto
next
  case Sweep
  then show ?thesis
    using cleanup_consistent [OF _ assms, of now r]
    by (cases "cleanupExpiredBookings now db r") auto
qed

theorem locked_at_follows_status_witness:
  "list_all seat_consistent (tbl_show_seats example_db_pending) \<and>
   map ss_status (tbl_show_seats (fst (run_op 2000 (Confirm 5 1) example_db_pending holder_store)))
     = [BOOKED, BOOKED] \<and>
   list_all seat_consistent
     (tbl_show_seats (fst (run_op 2000 (Confirm 5 1) example_db_pending holder_store)))"
proof -
  have a: "list_all seat_consistent (tbl_show_seats example_db_pending)"
    by (simp add: example_db_pending_def seat_consistent_def)
  from locked_at_follows_status [OF a, of 2000 "Confirm 5 1" holder_store] a show ?thesis
    by (simp add: confirm_defs eval_defs)
qed

section \<open>Terminal booking statuses\<close>

lemma find_update_by_id:
  "find (\<lambda>row. bk_booking_id row = b)
      (map (\<lambda>row. if bk_booking_id row = t then set_booking_status st row else row) rows)
   = map_option (\<lambda>row. if bk_booking_id row = t then set_booking_status st row else row)
       (find (\<lambda>row. bk_booking_id row = b) rows)"
  by (induction rows) (auto simp: set_booking_status_def)

lemma status_update_bookings:
  "booking_status_of (update_bookings (\<lambda>row. bk_booking_id row = t) (set_booking_status st) tx) b
   = (if b = t then map_option (\<lambda>_. st) (booking_status_of tx b) else booking_status_of tx b)"
proof (cases "find (\<lambda>row. bk_booking_id row = b) (tbl_bookings tx)")
  case None
  then show ?thesis
    by (auto simp: booking_status_of_def update_bookings_def find_update_by_id)
next
  case (Some row)
  then have "bk_booking_id row = b" by (auto simp: find_Some_iff)
  with Some show ?thesis
    by (auto simp: booking_status_of_def update_bookings_def find_update_by_id set_booking_status_def)
qed

lemma status_update_show_seats [simp]:
  "booking_status_of (update_show_seats wh st tx) b = booking_status_of tx b"
  by (simp add: booking_status_of_def update_show_seats_def)

lemma status_rollback [simp]: "booking_status_of (rollback db tx) b = booking_status_of db b"
  by (simp add: booking_status_of_def rollback_def)

lemma find_pkey:
  "distinct (map bk_booking_id rows) \<Longrightarrow> row \<in> set rows \<Longrightarrow>
     find (\<lambda>r. bk_booking_id r = bk_booking_id row) rows = Some row"
  by (induction rows) (auto simp: rev_image_eqI)

lemma found_booking_status:
  assumes "bookings_pkey db"
      and "filter (\<lambda>row. bk_booking_id row = booking_id \<and> bk_user_id row = userId) (tbl_bookings db)
             = booking # others"
  shows "booking_status_of db booking_id = Some (bk_status booking)"
proof -
  have "booking \<in> set (filter (\<lambda>row. bk_booking_id row = booking_id \<and> bk_user_id row = userId) (tbl_bookings db))"
    using assms(2) by simp
  then have "booking \<in> set (tbl_bookings db)" "bk_booking_id booking = booking_id" by auto
  with find_pkey [of "tbl_bookings db" booking] assms(1) show ?thesis
    by (simp add: booking_status_of_def bookings_pkey_def)
qed

lemma find_snoc:
  "find P (xs @ [y]) = (case find P xs of None \<Rightarrow> (if P y then Some y else None) | Some x \<Rightarrow> Some x)"
  by (induction xs) auto

lemma grant_seats_status:
  assumes "grant_seats now userId show_id ls db db r = (resp, db', r')"
      and "booking_status_of db b = Some st"
  shows "booking_status_of db' b = Some st"
  using assms
  by (auto simp: grant_seats_def insert_booking_def upsert_show_seats_def commit_def rollback_def
                 Let_def booking_status_of_def find_snoc
           split: prod.splits sum.splits if_splits option.splits)

lemma lockSeats_status:
  assumes "lockSeats now userId show_id seat_ids db r = (resp, db', r')"
      and "booking_status_of db b = Some st"
  shows "booking_status_of db' b = Some st"
proof (cases "granted resp")
  case False
  with lockSeats_ungranted [OF assms(1)] assms(2) show ?thesis
    by (simp add: booking_status_of_def)
next
  case True
  then obtain bid d t where resp: "resp = Seats_Locked bid d t" by (cases resp) auto
  have "seat_ids \<noteq> None" using assms(1) resp by (auto simp: lockSeats_def split: if_splits)
  then obtain ids where "seat_ids = Some ids" by auto
  with lockSeats_granted [of now userId show_id ids db r bid d t db' r'] assms(1) resp
  obtain ls where "grant_seats now userId show_id ls db db r' = (Seats_Locked bid d t, db', r')"
    by auto
  from grant_seats_status [OF this assms(2)] show ?thesis .
qed

lemma confirmBooking_status:
  assumes "confirmBooking now userId booking_id db r = (resp, db', r')"
      and "bookings_pkey db"
      and "booking_status_of db b = Some st" and "st \<noteq> PENDING"
  shows "booking_status_of db' b = Some st"
proof (cases "filter (\<lambda>row. bk_booking_id row = booking_id \<and> bk_user_id row = userId) (tbl_bookings db)")
  case Nil
  with assms show ?thesis by (auto simp: confirmBooking_def)
next
  case (Cons booking others)
  note found = found_booking_status [OF assms(2) Cons]
  show ?thesis
  proof (cases "bk_status booking = PENDING")
    case False
    with assms Cons show ?thesis by (auto simp: confirmBooking_def)
  next
    case True
    with found assms(3,4) have "b \<noteq> booking_id" by auto
    with assms(1,3) Cons True show ?thesis
      by (auto simp: confirmBooking_def confirm_expired_def confirm_commit_def commit_def Let_def
                     status_update_bookings
               split: if_splits prod.splits sum.splits)
  qed
qed

lemma cancelBooking_status:
  assumes "cancelBooking userId booking_id db r = (resp, db', r')"
      and "bookings_pkey db"
      and "booking_status_of db b = Some st"
  shows "booking_status_of db' b = Some st \<or>
         (b = booking_id \<and> st \<noteq> CANCELLED \<and> booking_status_of db' b = Some CANCELLED)"
proof (cases "filter (\<lambda>row. bk_booking_id row = booking_id \<and> bk_user_id row = userId) (tbl_bookings db)")
  case Nil
  with assms show ?thesis by (auto simp: cancelBooking_def)
next
  case (Cons booking others)
  note found = found_booking_status [OF assms(2) Cons]
  show ?thesis
  proof (cases "bk_status booking = CANCELLED")
    case True
    with assms Cons show ?thesis by (auto simp: cancelBooking_def)
  next
    case False
    with found assms(3) have "b = booking_id \<longrightarrow> st \<noteq> CANCELLED" by auto
    with assms(1,3) Cons False show ?thesis
      by (auto simp: cancelBooking_def commit_def Let_def status_update_bookings
               split: if_splits prod.splits sum.splits)
  qed
qed

lemma cleanup_loop_status:
  "cleanup_loop bs tx r = (e, tx', r') \<Longrightarrow> b \<notin> bk_booking_id ` set bs \<Longrightarrow>
     booking_status_of tx' b = booking_status_of tx b"
proof (induction bs arbitrary: tx r)
  case Nil
  then show ?case by simp
next
  case (Cons x bs)
  then show ?case
    by (auto simp: Let_def status_update_bookings split: prod.splits sum.splits)
qed

lemma cleanup_status:
  assumes "cleanupExpiredBookings now db r = (res, db', r')"
      and "bookings_pkey db"
      and "booking_status_of db b = Some st" and "st \<noteq> PENDING"
  shows "booking_status_of db' b = Some st"
proof -
  have "b \<notin> bk_booking_id ` set (filter (booking_expired now) (tbl_bookings db))"
  proof
    assume "b \<in> bk_booking_id ` set (filter (booking_expired now) (tbl_bookings db))"
    then obtain row where row: "row \<in> set (tbl_bookings db)" "booking_expired now row" "bk_booking_id row = b"
      by auto
    with find_pkey [of "tbl_bookings db" row] assms(2)
    have "booking_status_of db b = Some (bk_status row)"
      by (simp add: booking_status_of_def bookings_pkey_def)
    with row(2) assms(3,4) show False by (simp add: booking_expired_def)
  qed
  with assms(1,3) cleanup_loop_status [of _ db r _ _ _ b] show ?thesis
    by (auto simp: cleanupExpiredBookings_def commit_def Let_def split: prod.splits option.splits)
qed

lemma ids_update_bookings [simp]:
  "map bk_booking_id (tbl_bookings (update_bookings wh (set_booking_status st) tx))
     = map bk_booking_id (tbl_bookings tx)"
  by (simp add: update_bookings_def set_booking_status_def comp_def)

lemma ids_update_show_seats [simp]:
  "tbl_bookings (update_show_seats wh st tx) = tbl_bookings tx"
  by (simp add: update_show_seats_def)

lemma grant_seats_pkey:
  assumes "grant_seats now userId show_id ls db db r = (resp, db', r')" and "bookings_pkey db"
  shows "bookings_pkey db'"
  using assms
  by (auto simp: grant_seats_def insert_booking_def upsert_show_seats_def commit_def rollback_def
                 Let_def bookings_pkey_def
           split: prod.splits sum.splits if_splits)

lemma lockSeats_pkey:
  assumes "lockSeats now userId show_id seat_ids db r = (resp, db', r')" and "bookings_pkey db"
  shows "bookings_pkey db'"
proof (cases "granted resp")
  case False
  with lockSeats_ungranted [OF assms(1)] assms(2) show ?thesis
    by (simp add: bookings_pkey_def)
next
  case True
  then obtain bid d t where resp: "resp = Seats_Locked bid d t" by (cases resp) auto
  have "seat_ids \<noteq> None" using assms(1) resp by (auto simp: lockSeats_def split: if_splits)
  then obtain ids where "seat_ids = Some ids" by auto
  with lockSeats_granted [of now userId show_id ids db r bid d t db' r'] assms(1) resp
  obtain ls where "grant_seats now userId show_id ls db db r' = (Seats_Locked bid d t, db', r')"
    by auto
  from grant_seats_pkey [OF this assms(2)] show ?thesis .
qed

lemma confirmBooking_pkey:
  assumes "confirmBooking now userId booking_id db r = (resp, db', r')" and "bookings_pkey db"
  shows "bookings_pkey db'"
  using assms
  by (auto simp: confirmBooking_def confirm_expired_def confirm_commit_def commit_def rollback_def
                 Let_def bookings_pkey_def
           split: list.splits if_splits prod.splits sum.splits)

lemma cancelBooking_pkey:
  assumes "cancelBooking userId booking_id db r = (resp, db', r')" and "bookings_pkey db"
  shows "bookings_pkey db'"
  using assms
  by (auto simp: cancelBooking_def commit_def rollback_def Let_def bookings_pkey_def
           split: list.splits if_splits prod.splits sum.splits)

lemma cleanup_loop_ids:
  "cleanup_loop bs tx r = (e, tx', r') \<Longrightarrow>
     map bk_booking_id (tbl_bookings tx') = map bk_booking_id (tbl_bookings tx)"
  by (induction bs arbitrary: tx r) (auto simp: Let_def split: prod.splits sum.splits)

lemma cleanup_pkey:
  assumes "cleanupExpiredBookings now db r = (res, db', r')" and "bookings_pkey db"
  shows "bookings_pkey db'"
  using assms cleanup_loop_ids [of _ db r _ _ _]
  by (auto simp: cleanupExpiredBookings_def commit_def rollback_def Let_def bookings_pkey_def
           split: prod.splits option.splits)

lemma run_op_pkey:
  assumes "bookings_pkey db"
  shows "bookings_pkey (fst (run_op now op db r))"
proof (cases op)
  case (Lock userId show_id seat_ids)
  then show ?thesis
    using lockSeats_pkey [OF _ assms, of now userId show_id seat_ids r]
    by (cases "lockSeats now userId show_id seat_ids db r") auto
next
  case (Confirm userId booking_id)
  then show ?thesis
    using confirmBooking_pkey [OF _ assms, of now userId booking_id r]
    by (cases "confirmBooking now userId booking_id db r") auto
next
  case (Cancel userId booking_id)
  then show ?thesis
    using cancelBooking_pkey [OF _ assms, of userId booking_id r]
    by (cases "cancelBooking userId booking_id db r") auto
next
  case Sweep
  then show ?thesis
    using cleanup_pkey [OF _ assms, of now r]
    by (cases "cleanupExpiredBookings now db r") auto
qed

lemma del_if_any_reliable:
  "reliable r \<Longrightarrow> \<exists>r'. del_if_any ks r = (Inr (), r')"
  using redis_del_reliable [of r ks] by (auto simp: del_if_any_def)

lemma cancelBooking_cancels:
  assumes "bookings_pkey db" and "booking_status_of db b = Some st" and "st \<noteq> CANCELLED"
      and "row \<in> set (tbl_bookings db)" and "bk_booking_id row = b" and "bk_user_id row = userId"
      and "reliable r"
  shows "booking_status_of (fst (snd (cancelBooking userId b db r))) b = Some CANCELLED"
proof -
  have "row \<in> set (filter (\<lambda>row. bk_booking_id row = b \<and> bk_user_id row = userId) (tbl_bookings db))"
    using assms(4-6) by simp
  then obtain booking others where
    found: "filter (\<lambda>row. bk_booking_id row = b \<and> bk_user_id row = userId) (tbl_bookings db)
              = booking # others"
    by (cases "filter (\<lambda>row. bk_booking_id row = b \<and> bk_user_id row = userId) (tbl_bookings db)") auto
  from found_booking_status [OF assms(1) found] assms(2,3)
  have live: "bk_status booking \<noteq> CANCELLED" by simp
  from del_if_any_reliable [OF assms(7)] obtain r' where
    del: "del_if_any (map (\<lambda>seat. SeatLock (bk_show_id booking) (st_seat_id seat))
                        (booking_seat_details b db)) r = (Inr (), r')"
    by blast
  show ?thesis
    using found live del assms(2)
    by (simp add: cancelBooking_def commit_def Let_def status_update_bookings)
qed

lemma cancelBooking_not_owner:
  assumes "\<not> (\<exists>row \<in> set (tbl_bookings db). bk_booking_id row = b \<and> bk_user_id row = userId)"
  shows "snd (cancelBooking userId b db r) = (db, r)"
proof -
  have "filter (\<lambda>row. bk_booking_id row = b \<and> bk_user_id row = userId) (tbl_bookings db) = []"
    using assms by (auto simp: filter_empty_conv)
  then show ?thesis
    by (simp add: cancelBooking_def rollback_def)
qed

text \<open>
  Claim C4 as stated fails for CONFIRMED. Booking 1 of user 9 is CONFIRMED and owns the
  BOOKED seat 2; cancelBooking rejects only a booking that is CANCELLED already, so it
  answers 200 and the booking is CANCELLED afterwards.
\<close>

theorem confirmed_can_be_cancelled:
  "booking_status_of example_db_taken 1 = Some CONFIRMED \<and>
   fst (cancelBooking 9 1 example_db_taken empty_store)
     = Booking_Cancelled 1 [\<lparr>st_seat_id = 2, st_venue_id = 1, st_seat_row = ''A'', st_seat_number = 2\<rparr>] \<and>
   booking_status_of (fst (run_op 2000 (Cancel 9 1) example_db_taken empty_store)) 1 = Some CANCELLED"
  by (simp add: confirm_defs eval_defs op_defs)

text \<open>
  Claim C4, amended. Under the primary key of bookings, which every operation preserves:
  a booking that is CANCELLED is CANCELLED after lockSeats, confirmBooking, cancelBooking
  and the sweep, whatever their arguments and outcome. A booking that is CONFIRMED is
  CONFIRMED after each of them, except that after cancelBooking for that booking it is
  CONFIRMED or CANCELLED: it is CANCELLED when the caller owns the booking and no round
  trip of the lock store throws, and it is CONFIRMED when the caller does not own it.
\<close>

theorem cancelled_is_terminal:
  assumes "bookings_pkey db"
  shows "bookings_pkey (fst (run_op now op db r))
       \<and> (booking_status_of db b = Some CANCELLED \<longrightarrow>
            booking_status_of (fst (run_op now op db r)) b = Some CANCELLED)
       \<and> (booking_status_of db b = Some CONFIRMED \<longrightarrow>
            booking_status_of (fst (run_op now op db r)) b = Some CONFIRMED
            \<or> ((\<exists>userId. op = Cancel userId b) \<and>
                booking_status_of (fst (run_op now op db r)) b = Some CANCELLED))
       \<and> (booking_status_of db b = Some CONFIRMED \<and> op = Cancel userId b \<and>
            (\<exists>row \<in> set (tbl_bookings db). bk_booking_id row = b \<and> bk_user_id row = userId) \<and>
            reliable r \<longrightarrow>
            booking_status_of (fst (run_op now op db r)) b = Some CANCELLED)
       \<and> (booking_status_of db b = Some CONFIRMED \<and> op = Cancel userId b \<and>
            \<not> (\<exists>row \<in> set (tbl_bookings db). bk_booking_id row = b \<and> bk_user_id row = userId) \<longrightarrow>
            booking_status_of (fst (run_op now op db r)) b = Some CONFIRMED)"
proof -
  have terminal:
    "bookings_pkey (fst (run_op now op db r))
       \<and> (booking_status_of db b = Some CANCELLED \<longrightarrow>
            booking_status_of (fst (run_op now op db r)) b = Some CANCELLED)
       \<and> (booking_status_of db b = Some CONFIRMED \<longrightarrow>
            booking_status_of (fst (run_op now op db r)) b = Some CONFIRMED
            \<or> ((\<exists>userId. op = Cancel userId b) \<and>
                booking_status_of (fst (run_op now op db r)) b = Some CANCELLED))"
  proof (cases op)
    case (Lock userId show_id seat_ids)
    then show ?thesis
      using lockSeats_status [of now userId show_id seat_ids db r _ _ _ b] run_op_pkey [OF assms, of now op r]
      by (cases "lockSeats now userId show_id seat_ids db r") auto
  next
    case (Confirm userId booking_id)
    then show ?thesis
      using confirmBooking_status [OF _ assms, of now userId booking_id r _ _ _ b]
            run_op_pkey [OF assms, of now op r]
      by (cases "confirmBooking now userId booking_id db r") auto
  next
    case (Cancel userId booking_id)
    then show ?thesis
      using cancelBooking_status [OF _ assms, of userId booking_id r _ _ _ b]
            run_op_pkey [OF assms, of now op r]
      by (cases "cancelBooking userId booking_id db r") auto
  next
    case Sweep
    then show ?thesis
      using cleanup_status [OF _ assms, of now r _ _ _ b] run_op_pkey [OF assms, of now op r]
      by (cases "cleanupExpiredBookings now db r") auto
  qed
  have owner: "booking_status_of (fst (run_op now op db r)) b = Some CANCELLED"
    if "booking_status_of db b = Some CONFIRMED" "op = Cancel userId b"
       "row \<in> set (tbl_bookings db)" "bk_booking_id row = b" "bk_user_id row = userId"
       "reliable r" for row
    using cancelBooking_cancels [OF assms that(1) _ that(3-6)] that(2) by simp
  have stranger: "booking_status_of (fst (run_op now op db r)) b = Some CONFIRMED"
    if "booking_status_of db b = Some CONFIRMED" "op = Cancel userId b"
       "\<not> (\<exists>row \<in> set (tbl_bookings db). bk_booking_id row = b \<and> bk_user_id row = userId)"
    using cancelBooking_not_owner [OF that(3), of r] that(1,2) by simp
  show ?thesis
    using terminal owner stranger by blast
qed

text \<open>
  The theorem at four calls on booking 1: cancelBooking when it is CANCELLED; and, when it
  is CONFIRMED and owned by user 9, confirmBooking by user 9 (it stays CONFIRMED),
  cancelBooking by user 9 with a lock store that does not throw (CANCELLED), and
  cancelBooking by user 5 (it stays CONFIRMED).
\<close>

theorem cancelled_is_terminal_witness:
  "bookings_pkey example_db_cancelled \<and>
   booking_status_of example_db_cancelled 1 = Some CANCELLED \<and>
   booking_status_of (fst (run_op 2000 (Cancel 5 1) example_db_cancelled empty_store)) 1
     = Some CANCELLED \<and>
   bookings_pkey example_db_taken \<and>
   booking_status_of example_db_taken 1 = Some CONFIRMED \<and>
   booking_status_of (fst (run_op 2000 (Confirm 9 1) example_db_taken empty_store)) 1
     = Some CONFIRMED \<and>
   (\<exists>row \<in> set (tbl_bookings example_db_taken). bk_booking_id row = 1 \<and> bk_user_id row = 9) \<and>
   reliable empty_store \<and>
   booking_status_of (fst (run_op 2000 (Cancel 9 1) example_db_taken empty_store)) 1
     = Some CANCELLED \<and>
   \<not> (\<exists>row \<in> set (tbl_bookings example_db_taken). bk_booking_id row = 1 \<and> bk_user_id row = 5) \<and>
   booking_status_of (fst (run_op 2000 (Cancel 5 1) example_db_taken empty_store)) 1
     = Some CONFIRMED"
proof -
  have a: "bookings_pkey example_db_cancelled" "booking_status_of example_db_cancelled 1 = Some CANCELLED"
    by (simp_all add: op_defs)
  have b: "bookings_pkey example_db_taken" "booking_status_of example_db_taken 1 = Some CONFIRMED"
    by (simp_all add: op_defs example_db_taken_def)
  have o: "\<exists>row \<in> set (tbl_bookings example_db_taken). bk_booking_id row = 1 \<and> bk_user_id row = 9"
          "reliable empty_store"
          "\<not> (\<exists>row \<in> set (tbl_bookings example_db_taken). bk_booking_id row = 1 \<and> bk_user_id row = 5)"
    by (simp_all add: example_db_taken_def reliable_def empty_store_def)
  from cancelled_is_terminal [OF a(1), where b = 1 and now = 2000 and op = "Cancel 5 1" and r = empty_store] a(2)
  have c: "booking_status_of (fst (run_op 2000 (Cancel 5 1) example_db_cancelled empty_store)) 1
             = Some CANCELLED"
    by simp
  from cancelled_is_terminal [OF b(1), where b = 1 and now = 2000 and op = "Confirm 9 1" and r = empty_store] b(2)
  have d: "booking_status_of (fst (run_op 2000 (Confirm 9 1) example_db_taken empty_store)) 1
             = Some CONFIRMED"
    by simp
  from cancelled_is_terminal [OF b(1), where b = 1 and now = 2000 and op = "Cancel 9 1"
                               and r = empty_store and userId = 9] b(2) o(1,2)
  have e: "booking_status_of (fst (run_op 2000 (Cancel 9 1) example_db_taken empty_store)) 1
             = Some CANCELLED"
    by blast
  from cancelled_is_terminal [OF b(1), where b = 1 and now = 2000 and op = "Cancel 5 1"
                               and r = empty_store and userId = 5] b(2) o(3)
  have f: "booking_status_of (fst (run_op 2000 (Cancel 5 1) example_db_taken empty_store)) 1
             = Some CONFIRMED"
    by blast
  show ?thesis using a b c d e f o by simp
qed


section \<open>The sweep is one transaction\<close>

lemma release_keys_kv:
  "release_keys ks r = (Inr u, r') \<Longrightarrow> kv r' = (\<lambda>k. if k \<in> set ks then None else kv r k)"
proof (induction ks arbitrary: r)
  case Nil
  then show ?case by simp
next
  case (Cons key keys)
  then show ?case
    by (auto simp: redis_del_def tick_def fun_eq_iff split: prod.splits sum.splits list.splits bool.splits if_splits)
qed

lemma release_keys_mono:
  "release_keys ks r = (res, r') \<Longrightarrow> kv r k = None \<Longrightarrow> kv r' k = None"
proof (induction ks arbitrary: r)
  case Nil
  then show ?case by simp
next
  case (Cons key keys)
  then show ?case
    by (auto simp: redis_del_def tick_def split: prod.splits sum.splits list.splits bool.splits if_splits)
qed

lemma cleanup_loop_mono:
  "cleanup_loop bs tx r = (e, tx', r') \<Longrightarrow> kv r k = None \<Longrightarrow> kv r' k = None"
proof (induction bs arbitrary: tx r)
  case Nil
  then show ?case by simp
next
  case (Cons b bs)
  then show ?case
    by (auto simp: Let_def split: prod.splits sum.splits dest: release_keys_mono)
qed

lemma cleanup_loop_frame:
  "cleanup_loop bs tx r = (e, tx', r') \<Longrightarrow>
     seq_bookings tx' = seq_bookings tx \<and> tbl_shows tx' = tbl_shows tx \<and> tbl_seats tx' = tbl_seats tx"
  by (induction bs arbitrary: tx r)
     (auto simp: Let_def update_show_seats_def update_bookings_def split: prod.splits sum.splits)

lemma swept_bookings_step:
  "swept_bookings ids (swept_bookings {b} rows) = swept_bookings (insert b ids) rows"
  by (auto simp: swept_bookings_def set_booking_status_def)

lemma swept_seats_step:
  "swept_seats ids (swept_seats {b} rows) = swept_seats (insert b ids) rows"
  by (auto simp: swept_seats_def release_seat_def)

lemma cleanup_loop_tables:
  "cleanup_loop bs tx r = (None, tx', r') \<Longrightarrow>
     tbl_bookings tx' = swept_bookings (bk_booking_id ` set bs) (tbl_bookings tx) \<and>
     tbl_show_seats tx' = swept_seats (bk_booking_id ` set bs) (tbl_show_seats tx)"
proof (induction bs arbitrary: tx r)
  case Nil
  then show ?case by (simp add: swept_bookings_def swept_seats_def)
next
  case (Cons b bs)
  let ?tx2 = "update_bookings (\<lambda>row. bk_booking_id row = bk_booking_id b) (set_booking_status CANCELLED)
               (update_show_seats (\<lambda>row. ss_booking_id row = Some (bk_booking_id b)) release_seat tx)"
  from Cons.prems obtain r1 where
    rec: "cleanup_loop bs ?tx2 r1 = (None, tx', r')"
    by (auto simp: Let_def split: prod.splits sum.splits)
  have b2: "tbl_bookings ?tx2 = swept_bookings {bk_booking_id b} (tbl_bookings tx)"
    by (simp add: update_bookings_def update_show_seats_def swept_bookings_def)
  have s2: "tbl_show_seats ?tx2 = swept_seats {bk_booking_id b} (tbl_show_seats tx)"
    by (simp add: update_bookings_def update_show_seats_def swept_seats_def)
  from Cons.IH [OF rec] show ?case
    by (simp add: b2 s2 swept_bookings_step swept_seats_step)
qed

lemma cleanup_loop_locks:
  assumes "cleanup_loop bs tx r = (None, tx', r')" and "distinct (map bk_booking_id bs)"
  shows "\<forall>b \<in> set bs. \<forall>row \<in> set (tbl_show_seats tx).
           ss_booking_id row = Some (bk_booking_id b) \<longrightarrow>
           kv r' (SeatLock (bk_show_id b) (ss_seat_id row)) = None"
  using assms
proof (induction bs arbitrary: tx r)
  case Nil
  then show ?case by simp
next
  case (Cons x bs)
  let ?tx2 = "update_bookings (\<lambda>row. bk_booking_id row = bk_booking_id x) (set_booking_status CANCELLED)
               (update_show_seats (\<lambda>row. ss_booking_id row = Some (bk_booking_id x)) release_seat tx)"
  let ?keys = "map (\<lambda>seat. SeatLock (bk_show_id x) (ss_seat_id seat))
                 (filter (\<lambda>row. ss_booking_id row = Some (bk_booking_id x)) (tbl_show_seats tx))"
  from Cons.prems(1) obtain u r1 where
    rel: "release_keys ?keys r = (Inr u, r1)" and
    rec: "cleanup_loop bs ?tx2 r1 = (None, tx', r')"
    by (auto simp: Let_def split: prod.splits sum.splits)
  have head: "kv r' (SeatLock (bk_show_id x) (ss_seat_id row)) = None"
    if "row \<in> set (tbl_show_seats tx)" "ss_booking_id row = Some (bk_booking_id x)" for row
  proof -
    have "SeatLock (bk_show_id x) (ss_seat_id row) \<in> set ?keys" using that by auto
    with release_keys_kv [OF rel] have "kv r1 (SeatLock (bk_show_id x) (ss_seat_id row)) = None"
      by simp
    with cleanup_loop_mono [OF rec] show ?thesis by simp
  qed
  have tail: "kv r' (SeatLock (bk_show_id b) (ss_seat_id row)) = None"
    if "b \<in> set bs" "row \<in> set (tbl_show_seats tx)" "ss_booking_id row = Some (bk_booking_id b)" for b row
  proof -
    have ne: "bk_booking_id b \<noteq> bk_booking_id x" using that(1) Cons.prems(2) by (auto simp: image_iff)
    then have "row \<in> set (tbl_show_seats ?tx2)"
      using that(2,3) by (auto simp: update_bookings_def update_show_seats_def image_iff intro!: bexI [of _ row])
    with Cons.IH [OF rec] Cons.prems(2) that(1,3) show ?thesis by auto
  qed
  show ?case using head tail by auto
qed

lemma cleanup_loop_reliable:
  "reliable r \<Longrightarrow> \<exists>tx' r'. cleanup_loop bs tx r = (None, tx', r') \<and> reliable r'"
proof (induction bs arbitrary: tx r)
  case Nil
  then show ?case by simp
next
  case (Cons b bs)
  let ?keys = "map (\<lambda>seat. SeatLock (bk_show_id b) (ss_seat_id seat))
                 (filter (\<lambda>row. ss_booking_id row = Some (bk_booking_id b)) (tbl_show_seats tx))"
  from release_keys_reliable [OF Cons.prems, of ?keys] obtain r1 where
    r1: "release_keys ?keys r = (Inr (), r1)" "reliable r1" by blast
  from Cons.IH [OF r1(2)] r1(1) show ?case
    by (simp add: Let_def)
qed

lemmas sweep_defs = expired_ids_def swept_bookings_def swept_seats_def locks_released_def
  example_db_two_pending_def two_holders_store_def

text \<open>
  Claim C5 as stated fails. Both bookings have expired at time 700000. The deletion of
  booking 1's lock entry succeeds and the deletion of booking 2's throws. The error leaves
  the loop, the catch block rolls the one transaction back and rethrows: booking 1, whose
  own cleanup met no failure, is PENDING as before and its seat LOCKED, although its lock
  entry is gone.
\<close>

theorem sweep_failure_not_isolated:
  "fst (cleanupExpiredBookings 700000 example_db_two_pending (two_holders_store [False, True]))
     = Cleanup_Error RedisError \<and>
   kv (snd (snd (cleanupExpiredBookings 700000 example_db_two_pending (two_holders_store [False, True]))))
      (SeatLock 1 1) = None \<and>
   kv (snd (snd (cleanupExpiredBookings 700000 example_db_two_pending (two_holders_store [False, True]))))
      (SeatLock 1 2) = Some (held 6) \<and>
   booking_status_of
     (fst (snd (cleanupExpiredBookings 700000 example_db_two_pending (two_holders_store [False, True])))) 1
     = Some PENDING \<and>
   fst (snd (cleanupExpiredBookings 700000 example_db_two_pending (two_holders_store [False, True])))
     = example_db_two_pending"
  by (simp add: confirm_defs eval_defs op_defs sweep_defs)

text \<open>
  Claim C5, amended. A sweep cleans all expired PENDING bookings up in one transaction,
  and deletes their lock entries inside it. When it reports an error, the committed state
  is the one before the sweep. When it completes, every booking whose id expired is
  CANCELLED and every row such a booking owned is released to AVAILABLE with owner and
  timestamp cleared; under the primary key of bookings the lock entry of every such row is
  absent. A sweep over a lock store that does not throw completes.
\<close>

theorem sweep_single_transaction:
  assumes "cleanupExpiredBookings now db r = (res, db', r')"
  shows "((\<exists>e. res = Cleanup_Error e) \<longrightarrow> db' = db)
       \<and> ((\<exists>n. res = Cleanup_Completed n) \<longrightarrow>
            tbl_bookings db' = swept_bookings (expired_ids now db) (tbl_bookings db) \<and>
            tbl_show_seats db' = swept_seats (expired_ids now db) (tbl_show_seats db) \<and>
            (bookings_pkey db \<longrightarrow> locks_released now db r'))
       \<and> (reliable r \<longrightarrow> (\<exists>n. res = Cleanup_Completed n))"
proof -
  let ?ex = "filter (booking_expired now) (tbl_bookings db)"
  obtain e tx' r1 where loop: "cleanup_loop ?ex db r = (e, tx', r1)"
    by (metis prod_cases3)
  have r1: "r1 = r'" using assms loop
    by (auto simp: cleanupExpiredBookings_def Let_def split: option.splits)
  have err: "db' = db" if "res = Cleanup_Error x" for x
    using that assms loop cleanup_loop_frame [OF loop]
    by (auto simp: cleanupExpiredBookings_def Let_def rollback_def split: option.splits)
  have ok: "tbl_bookings db' = swept_bookings (expired_ids now db) (tbl_bookings db) \<and>
            tbl_show_seats db' = swept_seats (expired_ids now db) (tbl_show_seats db) \<and>
            (bookings_pkey db \<longrightarrow> locks_released now db r')" if "res = Cleanup_Completed n" for n
  proof -
    have e: "e = None" "db' = tx'" using that assms loop
      by (auto simp: cleanupExpiredBookings_def Let_def commit_def split: option.splits)
    have "distinct (map bk_booking_id ?ex)" if "bookings_pkey db"
      using that by (simp add: bookings_pkey_def distinct_map_filter)
    with cleanup_loop_locks [OF loop [unfolded e(1)]] r1
    have "bookings_pkey db \<longrightarrow> locks_released now db r'"
      by (auto simp: locks_released_def)
    with cleanup_loop_tables [OF loop [unfolded e(1)]] e(2) show ?thesis
      by (simp add: expired_ids_def)
  qed
  have rel: "\<exists>n. res = Cleanup_Completed n" if "reliable r"
    using cleanup_loop_reliable [OF that, of ?ex db] assms
    by (auto simp: cleanupExpiredBookings_def Let_def)
  show ?thesis using err ok rel by blast
qed

theorem sweep_single_transaction_witness:
  "reliable (two_holders_store []) \<and>
   bookings_pkey example_db_two_pending \<and>
   fst (cleanupExpiredBookings 700000 example_db_two_pending (two_holders_store [])) = Cleanup_Completed 2 \<and>
   map bk_status (tbl_bookings
     (fst (snd (cleanupExpiredBookings 700000 example_db_two_pending (two_holders_store [])))))
     = [CANCELLED, CANCELLED] \<and>
   map ss_status (tbl_show_seats
     (fst (snd (cleanupExpiredBookings 700000 example_db_two_pending (two_holders_store [])))))
     = [AVAILABLE, AVAILABLE] \<and>
   locks_released 700000 example_db_two_pending
     (snd (snd (cleanupExpiredBookings 700000 example_db_two_pending (two_holders_store [])))) \<and>
   fst (cleanupExpiredBookings 700000 example_db_two_pending (two_holders_store [True]))
     = Cleanup_Error RedisError \<and>
   fst (snd (cleanupExpiredBookings 700000 example_db_two_pending (two_holders_store [True])))
     = example_db_two_pending"
proof -
  obtain res1 db1 r1 where run1:
    "cleanupExpiredBookings 700000 example_db_two_pending (two_holders_store []) = (res1, db1, r1)"
    by (metis prod_cases3)
  obtain res2 db2 r2 where run2:
    "cleanupExpiredBookings 700000 example_db_two_pending (two_holders_store [True]) = (res2, db2, r2)"
    by (metis prod_cases3)
  have a: "reliable (two_holders_store [])" "bookings_pkey example_db_two_pending"
    by (simp_all add: reliable_def two_holders_store_def bookings_pkey_def example_db_two_pending_def)
  have ids: "expired_ids 700000 example_db_two_pending = {1, 2}"
    by (auto simp: expired_ids_def example_db_two_pending_def booking_expired_def timeoutMinutes_def)
  have n: "res1 = Cleanup_Completed 2"
    using sweep_single_transaction [OF run1] a(1) run1
    by (auto simp: cleanupExpiredBookings_def Let_def example_db_two_pending_def booking_expired_def
                   timeoutMinutes_def split: prod.splits option.splits)
  from sweep_single_transaction [OF run1] n a(2) ids
  have c1: "tbl_bookings db1 = swept_bookings {1, 2} (tbl_bookings example_db_two_pending)"
           "tbl_show_seats db1 = swept_seats {1, 2} (tbl_show_seats example_db_two_pending)"
           "locks_released 700000 example_db_two_pending r1"
    by auto
  have e: "res2 = Cleanup_Error RedisError"
    using run2 by (auto simp: confirm_defs eval_defs sweep_defs)
  from sweep_single_transaction [OF run2] e have c2: "db2 = example_db_two_pending"
    by auto
  show ?thesis
    using a n c1 e c2 run1 run2
    by (simp add: swept_bookings_def swept_seats_def example_db_two_pending_def
                  set_booking_status_def release_seat_def)
qed


section \<open>The waiting room over the threshold\<close>

lemma rel_get:
  "reliable r \<Longrightarrow> \<exists>r'. redis_get k r = (Inr (map_option fst (kv r k)), r') \<and> same_data r r' \<and> reliable r'"
  by (cases "faults r") (auto simp: redis_get_def tick_def reliable_def same_data_def)

lemma rel_getWaiting:
  "reliable r \<Longrightarrow> \<exists>r'. queue_getWaiting r = (Inr (q_waiting r), r') \<and> same_data r r' \<and> reliable r'"
  by (cases "faults r") (auto simp: queue_getWaiting_def tick_def reliable_def same_data_def)

lemma rel_add:
  "reliable r \<Longrightarrow> job_delay j > 0 \<Longrightarrow>
     \<exists>r'. queue_add j r = (Inr (), r') \<and> kv r' = kv r \<and> q_waiting r' = q_waiting r \<and>
          q_delayed r' = q_delayed r @ [j] \<and> reliable r'"
  by (cases "faults r") (auto simp: queue_add_def tick_def reliable_def)

lemma rel_setex:
  "reliable r \<Longrightarrow>
     \<exists>r'. redis_setex k ttl v r = (Inr (), r') \<and> kv r' = (kv r)(k \<mapsto> (v, Some ttl)) \<and>
          q_waiting r' = q_waiting r \<and> q_delayed r' = q_delayed r \<and> reliable r'"
  by (cases "faults r") (auto simp: redis_setex_def tick_def reliable_def)

lemma check_demand_over:
  assumes "reliable r" and "exceeds (parse_count (map_option fst (kv r key))) threshold"
  shows "\<exists>r'. check_demand key threshold window r = (True, r') \<and> same_data r r' \<and> reliable r'"
proof -
  from rel_get [OF assms(1), of key] obtain r1 where
    "redis_get key r = (Inr (map_option fst (kv r key)), r1)" "same_data r r1" "reliable r1" by blast
  with assms(2) show ?thesis by (auto simp: check_demand_def)
qed

lemma existing_token_waiting:
  assumes "reliable r" and "\<not> truthy (map_option fst (kv r (CanProceed tok)))"
  shows "\<exists>r'. existing_token key tok r = (In_Waiting_Room, r') \<and> same_data r r' \<and> reliable r'"
proof -
  from rel_get [OF assms(1), of "CanProceed tok"] obtain r1 where
    "redis_get (CanProceed tok) r = (Inr (map_option fst (kv r (CanProceed tok))), r1)"
    "same_data r r1" "reliable r1" by blast
  with assms(2) show ?thesis by (auto simp: existing_token_def)
qed

lemma enqueue_caller_below:
  assumes "reliable r" and "int (length (q_waiting r)) < MAX_CONCURRENT_USERS env"
  shows "\<exists>r'. enqueue_caller env d clientId key r = (Next None, r') \<and> same_data r r' \<and> reliable r'"
proof -
  from rel_getWaiting [OF assms(1)] obtain r1 where
    "queue_getWaiting r = (Inr (q_waiting r), r1)" "same_data r r1" "reliable r1" by blast
  with assms(2) show ?thesis by (auto simp: enqueue_caller_def)
qed

lemma enqueue_caller_full:
  assumes "reliable r" and "int (length (q_waiting r)) \<ge> MAX_CONCURRENT_USERS env"
  shows "\<exists>r'. enqueue_caller env d clientId key r = (Placed_In_Waiting_Room (drawn_token d), r') \<and>
              kv r' = (kv r)(key \<mapsto> (Str (drawn_token d), Some 300)) \<and>
              q_waiting r' = q_waiting r \<and>
              q_delayed r' = q_delayed r @
                 [\<lparr>job_token = drawn_token d, job_clientId = clientId, job_timestamp = drawn_now d,
                   job_delay = drawn_delay d + 5000, job_priority = drawn_priority d\<rparr>] \<and>
              reliable r'"
proof -
  let ?job = "\<lparr>job_token = drawn_token d, job_clientId = clientId, job_timestamp = drawn_now d,
                   job_delay = drawn_delay d + 5000, job_priority = drawn_priority d\<rparr>"
  from rel_getWaiting [OF assms(1)] obtain r1 where
    1: "queue_getWaiting r = (Inr (q_waiting r), r1)" "same_data r r1" "reliable r1" by blast
  from rel_add [OF 1(3), of ?job] obtain r2 where
    2: "queue_add ?job r1 = (Inr (), r2)" "kv r2 = kv r1" "q_waiting r2 = q_waiting r1"
       "q_delayed r2 = q_delayed r1 @ [?job]" "reliable r2" by auto
  from rel_setex [OF 2(5), of key 300 "Str (drawn_token d)"] obtain r3 where
    3: "redis_setex key 300 (Str (drawn_token d)) r2 = (Inr (), r3)"
       "kv r3 = (kv r2)(key \<mapsto> (Str (drawn_token d), Some 300))"
       "q_waiting r3 = q_waiting r2" "q_delayed r3 = q_delayed r2" "reliable r3" by blast
  show ?thesis
    using assms(2) 1 2 3 by (auto simp: enqueue_caller_def Let_def same_data_def)
qed

lemmas admission_defs = smartWaitingRoom_def rateLimiter_def admission_layer_def
  checkHighDemandShow_def checkSystemLoad_def check_demand_def existing_token_def
  enqueue_caller_def isBookingRoute_def clientId_of_def exceeds_def
  redis_get_def redis_incr_def redis_expire_def redis_multi_incr_expire_def redis_setex_def
  queue_getWaiting_def queue_add_def
  example_env_def example_draws_def lock_request_def other_job_def busy_store_def queued_store_def
  demand_key_def demand_threshold_def over_threshold_def gated_def marker_of_def admitted_def
  waiting_job_def same_data_def thrown_def consumed_def

lemma lock_request_gated: "gated lock_request"
  by (simp add: gated_def lock_request_def isBookingRoute_def)

text \<open>
  Claim C6 as stated fails. Show 1 has had 51 requests in its window, the caller has neither
  a marker nor a token of admission, and no job waits in the queue. The counter exceeds its
  threshold, but the queue holds fewer than MAX_CONCURRENT_USERS waiting jobs: the middleware
  calls \<open>next()\<close>, enqueues nothing and records no marker.
\<close>

theorem over_threshold_passes_through:
  "gated lock_request \<and> over_threshold lock_request (busy_store [] []) \<and>
   \<not> admitted lock_request (busy_store [] []) \<and>
   fst (smartWaitingRoom example_env example_draws lock_request (busy_store [] [])) = Next None \<and>
   q_delayed (snd (smartWaitingRoom example_env example_draws lock_request (busy_store [] []))) = [] \<and>
   q_waiting (snd (smartWaitingRoom example_env example_draws lock_request (busy_store [] []))) = [] \<and>
   kv (snd (smartWaitingRoom example_env example_draws lock_request (busy_store [] [])))
      (WaitingRoom ''10.0.0.1'') = None"
  by (simp add: admission_defs eval_defs)


text \<open>
  Claim C6, amended. Take a request the waiting room applies to, from a caller without a
  token of admission, a lock store that does not throw, and a demand counter (of the show
  when the request names one, of the system otherwise) over its threshold. Then the counter
  is left as it is. A caller who has a queue marker gets the deferred answer and nothing
  else changes. A caller without a marker is enqueued with a delay of at least five seconds,
  gets the marker with a time to live of 300 seconds and the deferred answer when at least
  MAX_CONCURRENT_USERS jobs wait in the queue; otherwise the request is passed through and
  nothing changes.
\<close>

theorem waiting_room_over_threshold:
  assumes "smartWaitingRoom env d req r = (out, r')"
      and "gated req" and "reliable r" and "over_threshold req r" and "\<not> admitted req r"
  shows "kv r' (demand_key req) = kv r (demand_key req)
       \<and> (truthy (marker_of req r) \<longrightarrow> out = In_Waiting_Room \<and> same_data r r')
       \<and> (\<not> truthy (marker_of req r) \<and> int (length (q_waiting r)) \<ge> MAX_CONCURRENT_USERS env \<longrightarrow>
            out = Placed_In_Waiting_Room (drawn_token d) \<and>
            q_delayed r' = q_delayed r @ [waiting_job d req] \<and> q_waiting r' = q_waiting r \<and>
            kv r' = (kv r)(WaitingRoom (clientId_of req) \<mapsto> (Str (drawn_token d), Some 300)))
       \<and> (\<not> truthy (marker_of req r) \<and> int (length (q_waiting r)) < MAX_CONCURRENT_USERS env \<longrightarrow>
            out = Next None \<and> same_data r r')"
proof -
  let ?key = "WaitingRoom (clientId_of req)"
  have chk: "(if req_show_id req \<noteq> None \<and> req_show_id req \<noteq> Some []
              then checkHighDemandShow (the (req_show_id req)) r else checkSystemLoad r)
             = check_demand (demand_key req) (demand_threshold req)
                 (if req_show_id req \<noteq> None \<and> req_show_id req \<noteq> Some [] then 300 else 120) r"
    by (simp add: checkHighDemandShow_def checkSystemLoad_def demand_key_def demand_threshold_def)
  from check_demand_over [OF assms(3), of "demand_key req" "demand_threshold req"] assms(4)
  obtain r1 where
    1: "check_demand (demand_key req) (demand_threshold req)
          (if req_show_id req \<noteq> None \<and> req_show_id req \<noteq> Some [] then 300 else 120) r = (True, r1)"
       "same_data r r1" "reliable r1"
    unfolding over_threshold_def by blast
  from rel_get [OF 1(3), of ?key] obtain r2 where
    2: "redis_get ?key r1 = (Inr (map_option fst (kv r1 ?key)), r2)" "same_data r1 r2" "reliable r2"
    by blast
  have m: "map_option fst (kv r1 ?key) = marker_of req r"
    using 1(2) by (simp add: marker_of_def same_data_def)
  have body: "(if truthy (marker_of req r)
               then existing_token ?key (the (marker_of req r)) r2
               else enqueue_caller env d (clientId_of req) ?key r2) = (out, r')"
    using assms(1,2) chk 1(1) 2(1) m
    by (simp add: smartWaitingRoom_def gated_def Let_def)
  have sd: "same_data r r2" using 1(2) 2(2) by (simp add: same_data_def)
  have nk: "?key \<noteq> demand_key req" by (simp add: demand_key_def)
  show ?thesis
  proof (cases "truthy (marker_of req r)")
    case True
    with assms(5) have "\<not> truthy (map_option fst (kv r2 (CanProceed (the (marker_of req r)))))"
      using sd by (simp add: admitted_def same_data_def)
    from existing_token_waiting [OF 2(3) this, of ?key] body True sd show ?thesis
      by (auto simp: same_data_def)
  next
    case False
    show ?thesis
    proof (cases "int (length (q_waiting r)) \<ge> MAX_CONCURRENT_USERS env")
      case True
      then have "int (length (q_waiting r2)) \<ge> MAX_CONCURRENT_USERS env"
        using sd by (simp add: same_data_def)
      from enqueue_caller_full [OF 2(3) this, of d "clientId_of req" ?key] body False True sd nk
      show ?thesis
        by (auto simp: same_data_def waiting_job_def)
    next
      case below: False
      then have "int (length (q_waiting r2)) < MAX_CONCURRENT_USERS env"
        using sd by (simp add: same_data_def)
      from enqueue_caller_below [OF 2(3) this, of d "clientId_of req" ?key] body False below sd
      show ?thesis
        by (auto simp: same_data_def)
    qed
  qed
qed

theorem waiting_room_over_threshold_witness:
  "gated lock_request \<and>
   reliable (busy_store (replicate 500 other_job) []) \<and>
   over_threshold lock_request (busy_store (replicate 500 other_job) []) \<and>
   \<not> admitted lock_request (busy_store (replicate 500 other_job) []) \<and>
   fst (smartWaitingRoom example_env example_draws lock_request (busy_store (replicate 500 other_job) []))
     = Placed_In_Waiting_Room ''token_1000_abc'' \<and>
   q_delayed (snd (smartWaitingRoom example_env example_draws lock_request
                     (busy_store (replicate 500 other_job) [])))
     = [waiting_job example_draws lock_request] \<and>
   kv (snd (smartWaitingRoom example_env example_draws lock_request
              (busy_store (replicate 500 other_job) []))) (WaitingRoom ''10.0.0.1'')
     = Some (Str ''token_1000_abc'', Some 300) \<and>
   kv (snd (smartWaitingRoom example_env example_draws lock_request
              (busy_store (replicate 500 other_job) []))) (ShowDemand ''1'')
     = Some (Num 51, Some 300) \<and>
   over_threshold lock_request (queued_store []) \<and>
   \<not> admitted lock_request (queued_store []) \<and>
   fst (smartWaitingRoom example_env example_draws lock_request (queued_store [])) = In_Waiting_Room \<and>
   q_delayed (snd (smartWaitingRoom example_env example_draws lock_request (queued_store []))) = []"
proof -
  let ?full = "busy_store (replicate 500 other_job) []"
  obtain out1 r1 where run1:
    "smartWaitingRoom example_env example_draws lock_request ?full = (out1, r1)"
    by (metis prod.exhaust)
  obtain out2 r2 where run2:
    "smartWaitingRoom example_env example_draws lock_request (queued_store []) = (out2, r2)"
    by (metis prod.exhaust)
  have g: "gated lock_request" by (rule lock_request_gated)
  have h1: "reliable ?full" "over_threshold lock_request ?full" "\<not> admitted lock_request ?full"
           "\<not> truthy (marker_of lock_request ?full)"
           "int (length (q_waiting ?full)) \<ge> MAX_CONCURRENT_USERS example_env"
           "q_delayed ?full = []"
           "kv ?full (ShowDemand ''1'') = Some (Num 51, Some 300)"
           "clientId_of lock_request = ''10.0.0.1''" "demand_key lock_request = ShowDemand ''1''"
    by (simp_all add: reliable_def busy_store_def over_threshold_def admitted_def marker_of_def
                      demand_key_def demand_threshold_def lock_request_def clientId_of_def
                      exceeds_def example_env_def)
  have h2: "reliable (queued_store [])" "over_threshold lock_request (queued_store [])"
           "\<not> admitted lock_request (queued_store [])"
           "truthy (marker_of lock_request (queued_store []))"
           "q_delayed (queued_store []) = []"
    by (simp_all add: reliable_def queued_store_def over_threshold_def admitted_def marker_of_def
                      demand_key_def demand_threshold_def lock_request_def clientId_of_def
                      exceeds_def)
  from waiting_room_over_threshold [OF run1 g h1(1,2,3)] h1(4,5,6,7,8,9)
  have c1: "out1 = Placed_In_Waiting_Room (drawn_token example_draws)"
           "q_delayed r1 = [waiting_job example_draws lock_request]"
           "kv r1 (WaitingRoom ''10.0.0.1'') = Some (Str (drawn_token example_draws), Some 300)"
           "kv r1 (ShowDemand ''1'') = Some (Num 51, Some 300)"
    by auto
  from waiting_room_over_threshold [OF run2 g h2(1,2,3)] h2(4,5)
  have c2: "out2 = In_Waiting_Room" "q_delayed r2 = []"
    by (auto simp: same_data_def)
  show ?thesis
    using g h1(1,2,3) h2(2,3) c1 c2 run1 run2 by (simp add: example_draws_def)
qed

section \<open>The middlewares fail open\<close>

lemma fails_open_thrown: "fails_open r r' passed \<Longrightarrow> thrown r r' \<Longrightarrow> passed"
  by (auto simp: fails_open_def thrown_def consumed_def)

lemma fo_refl: "fails_open r r passed"
  by (simp add: fails_open_def)

lemma fo_trans:
  assumes "fails_open r r1 a" and "fails_open r1 r2 b" and "a \<Longrightarrow> c" and "b \<Longrightarrow> c"
  shows "fails_open r r2 c"
proof -
  from assms(1) obtain fl1 where 1: "faults r = fl1 @ faults r1" "True \<in> set fl1 \<longrightarrow> a"
    by (auto simp: fails_open_def)
  from assms(2) obtain fl2 where 2: "faults r1 = fl2 @ faults r2" "True \<in> set fl2 \<longrightarrow> b"
    by (auto simp: fails_open_def)
  have "faults r = (fl1 @ fl2) @ faults r2" using 1(1) 2(1) by simp
  moreover have "True \<in> set (fl1 @ fl2) \<longrightarrow> c" using 1(2) 2(2) assms(3,4) by auto
  ultimately show ?thesis unfolding fails_open_def by blast
qed

lemma fo_weaken: "fails_open r r' a \<Longrightarrow> (a \<Longrightarrow> b) \<Longrightarrow> fails_open r r' b"
  by (auto simp: fails_open_def)

lemma fo_get: "redis_get k r = (res, r') \<Longrightarrow> fails_open r r' (isl res)"
  unfolding fails_open_def
  by (cases "faults r") (auto simp: redis_get_def tick_def split: bool.splits)

lemma fo_del: "redis_del ks r = (res, r') \<Longrightarrow> fails_open r r' (isl res)"
  unfolding fails_open_def
  by (cases "faults r") (auto simp: redis_del_def tick_def split: bool.splits)

lemma fo_setex: "redis_setex k ttl v r = (res, r') \<Longrightarrow> fails_open r r' (isl res)"
  unfolding fails_open_def
  by (cases "faults r") (auto simp: redis_setex_def tick_def split: bool.splits)

lemma fo_incr: "redis_incr k r = (res, r') \<Longrightarrow> fails_open r r' (isl res)"
  unfolding fails_open_def
  by (cases "faults r")
     (auto simp: redis_incr_def tick_def split: bool.splits option.splits prod.splits redis_val.splits)

lemma fo_expire: "redis_expire k ttl r = (res, r') \<Longrightarrow> fails_open r r' (isl res)"
  unfolding fails_open_def
  by (cases "faults r")
     (auto simp: redis_expire_def tick_def split: bool.splits option.splits prod.splits)

lemma fo_multi: "redis_multi_incr_expire k ttl r = (res, r') \<Longrightarrow> fails_open r r' (isl res)"
  unfolding fails_open_def
  by (cases "faults r")
     (auto simp: redis_multi_incr_expire_def tick_def
           split: bool.splits option.splits prod.splits redis_val.splits)

lemma fo_getWaiting: "queue_getWaiting r = (res, r') \<Longrightarrow> fails_open r r' (isl res)"
  unfolding fails_open_def
  by (cases "faults r") (auto simp: queue_getWaiting_def tick_def split: bool.splits)

lemma fo_add: "queue_add j r = (res, r') \<Longrightarrow> fails_open r r' (isl res)"
  unfolding fails_open_def
  by (cases "faults r") (auto simp: queue_add_def tick_def split: bool.splits if_splits)

lemma rateLimiter_fails_open:
  assumes "rateLimiter env req r = (out, r')"
  shows "fails_open r r' (out = Next None)"
proof -
  obtain res1 r1 where i: "redis_incr (RateLimit (clientId_of req)) r = (res1, r1)"
    by (metis prod.exhaust)
  note f1 = fo_incr [OF i]
  show ?thesis
  proof (cases res1)
    case (Inl e)
    with assms i have "out = Next None" "r' = r1" by (auto simp: rateLimiter_def Let_def)
    with f1 show ?thesis by (auto intro: fo_weaken)
  next
    case (Inr current)
    show ?thesis
    proof (cases "current = 1")
      case False
      with assms i Inr have "r' = r1" by (auto simp: rateLimiter_def Let_def split: if_splits)
      with f1 Inr show ?thesis by (auto intro: fo_weaken)
    next
      case True
      obtain res2 r2 where e: "redis_expire (RateLimit (clientId_of req)) 60 r1 = (res2, r2)"
        by (metis prod.exhaust)
      have r': "r' = r2" and out: "isl res2 \<Longrightarrow> out = Next None"
        using assms i Inr True e by (auto simp: rateLimiter_def Let_def split: sum.splits if_splits)
      from fo_trans [OF f1 fo_expire [OF e], of "out = Next None"] Inr out r' show ?thesis
        by auto
    qed
  qed
qed

lemma check_demand_fails_open:
  assumes "check_demand key threshold window r = (should, r')"
  shows "fails_open r r' (\<not> should)"
proof -
  obtain res1 r1 where g: "redis_get key r = (res1, r1)" by (metis prod.exhaust)
  note f1 = fo_get [OF g]
  show ?thesis
  proof (cases res1)
    case (Inl e)
    with assms g have "\<not> should" "r' = r1" by (auto simp: check_demand_def)
    with f1 show ?thesis by (auto intro: fo_weaken)
  next
    case (Inr current)
    show ?thesis
    proof (cases "exceeds (parse_count current) threshold")
      case True
      with assms g Inr have "r' = r1" by (auto simp: check_demand_def)
      with f1 Inr show ?thesis by (auto intro: fo_weaken)
    next
      case False
      obtain res2 r2 where m: "redis_multi_incr_expire key window r1 = (res2, r2)"
        by (metis prod.exhaust)
      have "r' = r2" "\<not> should"
        using assms g Inr False m by (auto simp: check_demand_def split: sum.splits)
      with fo_trans [OF f1 fo_multi [OF m], of "\<not> should"] show ?thesis by auto
    qed
  qed
qed

lemma existing_token_fails_open:
  assumes "existing_token key tok r = (out, r')"
  shows "fails_open r r' (out = Next None)"
proof -
  obtain res1 r1 where g: "redis_get (CanProceed tok) r = (res1, r1)" by (metis prod.exhaust)
  note f1 = fo_get [OF g]
  show ?thesis
  proof (cases res1)
    case (Inl e)
    with assms g have "out = Next None" "r' = r1" by (auto simp: existing_token_def)
    with f1 show ?thesis by (auto intro: fo_weaken)
  next
    case (Inr canProceed)
    show ?thesis
    proof (cases "truthy canProceed")
      case False
      with assms g Inr have "r' = r1" by (auto simp: existing_token_def)
      with f1 Inr show ?thesis by (auto intro: fo_weaken)
    next
      case True
      obtain res2 r2 where d1: "redis_del [key] r1 = (res2, r2)" by (metis prod.exhaust)
      have f2: "fails_open r r2 (isl res2)"
        using fo_trans [OF f1 fo_del [OF d1], of "isl res2"] Inr by auto
      show ?thesis
      proof (cases res2)
        case (Inl e)
        with assms g Inr True d1 have "out = Next None" "r' = r2"
          by (auto simp: existing_token_def)
        with f2 show ?thesis by (auto intro: fo_weaken)
      next
        case (Inr u)
        obtain res3 r3 where d2: "redis_del [CanProceed tok] r2 = (res3, r3)"
          by (metis prod.exhaust)
        have r': "r' = r3" and out: "isl res3 \<Longrightarrow> out = Next None"
          using assms g \<open>res1 = Inr canProceed\<close> True d1 Inr d2
          by (auto simp: existing_token_def split: sum.splits)
        from fo_trans [OF f2 fo_del [OF d2], of "out = Next None"] Inr out r' show ?thesis
          by auto
      qed
    qed
  qed
qed

lemma enqueue_caller_fails_open:
  assumes "enqueue_caller env d clientId key r = (out, r')"
  shows "fails_open r r' (out = Next None)"
proof -
  obtain res1 r1 where g: "queue_getWaiting r = (res1, r1)" by (metis prod.exhaust)
  note f1 = fo_getWaiting [OF g]
  show ?thesis
  proof (cases res1)
    case (Inl e)
    with assms g have "out = Next None" "r' = r1" by (auto simp: enqueue_caller_def)
    with f1 show ?thesis by (auto intro: fo_weaken)
  next
    case (Inr queueSize)
    show ?thesis
    proof (cases "int (length queueSize) \<ge> MAX_CONCURRENT_USERS env")
      case False
      with assms g Inr have "r' = r1" by (auto simp: enqueue_caller_def)
      with f1 Inr show ?thesis by (auto intro: fo_weaken)
    next
      case True
      let ?job = "\<lparr>job_token = drawn_token d, job_clientId = clientId,
                    job_timestamp = drawn_now d, job_delay = drawn_delay d + 5000,
                    job_priority = drawn_priority d\<rparr>"
      obtain res2 r2 where a: "queue_add ?job r1 = (res2, r2)" by (metis prod.exhaust)
      have f2: "fails_open r r2 (isl res2)"
        using fo_trans [OF f1 fo_add [OF a], of "isl res2"] Inr by auto
      show ?thesis
      proof (cases res2)
        case (Inl e)
        with assms g Inr True a have "out = Next None" "r' = r2"
          by (auto simp: enqueue_caller_def Let_def)
        with f2 show ?thesis by (auto intro: fo_weaken)
      next
        case (Inr u)
        obtain res3 r3 where s: "redis_setex key 300 (Str (drawn_token d)) r2 = (res3, r3)"
          by (metis prod.exhaust)
        have r': "r' = r3" and out: "isl res3 \<Longrightarrow> out = Next None"
          using assms g \<open>res1 = Inr queueSize\<close> True a Inr s
          by (auto simp: enqueue_caller_def Let_def split: sum.splits)
        from fo_trans [OF f2 fo_setex [OF s], of "out = Next None"] Inr out r' show ?thesis
          by auto
      qed
    qed
  qed
qed

lemma smartWaitingRoom_fails_open:
  assumes "smartWaitingRoom env d req r = (out, r')"
  shows "fails_open r r' (out = Next None)"
proof (cases "req_path req = ''/health'' \<or> startsWith (req_path req) ''/api/v1/admin''
              \<or> \<not> isBookingRoute (req_path req)")
  case True
  with assms have "r' = r" by (auto simp: smartWaitingRoom_def split: if_splits)
  then show ?thesis by (simp add: fo_refl)
next
  case False
  define chk where "chk = (if req_show_id req \<noteq> None \<and> req_show_id req \<noteq> Some []
                           then checkHighDemandShow (the (req_show_id req)) r
                           else checkSystemLoad r)"
  obtain should r1 where c: "chk = (should, r1)" by (metis prod.exhaust)
  have f1: "fails_open r r1 (\<not> should)"
    using c check_demand_fails_open unfolding chk_def checkHighDemandShow_def checkSystemLoad_def
    by (auto split: if_splits)
  show ?thesis
  proof (cases should)
    case False
    with assms \<open>\<not> (req_path req = ''/health'' \<or> startsWith (req_path req) ''/api/v1/admin''
              \<or> \<not> isBookingRoute (req_path req))\<close> c
    have "out = Next None" "r' = r1"
      by (auto simp: smartWaitingRoom_def Let_def chk_def)
    with f1 show ?thesis by (auto intro: fo_weaken)
  next
    case True
    obtain res2 r2 where g: "redis_get (WaitingRoom (clientId_of req)) r1 = (res2, r2)"
      by (metis prod.exhaust)
    have f2: "fails_open r r2 (isl res2)"
      using fo_trans [OF f1 fo_get [OF g], of "isl res2"] True by auto
    have body: "(case res2 of
                   Inl e \<Rightarrow> (Next None, r2)
                 | Inr existingToken \<Rightarrow>
                     if truthy existingToken
                     then existing_token (WaitingRoom (clientId_of req)) (the existingToken) r2
                     else enqueue_caller env d (clientId_of req) (WaitingRoom (clientId_of req)) r2)
                = (out, r')"
      using assms \<open>\<not> (req_path req = ''/health'' \<or> startsWith (req_path req) ''/api/v1/admin''
              \<or> \<not> isBookingRoute (req_path req))\<close> c True g
      by (auto simp: smartWaitingRoom_def Let_def chk_def)
    show ?thesis
    proof (cases res2)
      case (Inl e)
      with body have "out = Next None" "r' = r2" by auto
      with f2 show ?thesis by (auto intro: fo_weaken)
    next
      case (Inr existingToken)
      have "fails_open r2 r' (out = Next None)"
        using body Inr existing_token_fails_open enqueue_caller_fails_open
        by (auto split: if_splits)
      from fo_trans [OF f2 this, of "out = Next None"] Inr show ?thesis by auto
    qed
  qed
qed

text \<open>
  Claim C9 as stated fails for the layer as a whole. The INCR of the rate limiter throws,
  so the rate limiter calls \<open>next()\<close>; the waiting room then runs without an error, finds
  show 1 over its threshold and the caller's marker without a token of admission, and
  answers 429: the request is deferred although an operation of the rate limiter threw.
\<close>

theorem rate_limiter_error_then_deferred:
  "fst (rateLimiter example_env lock_request (queued_store [True])) = Next None \<and>
   thrown (queued_store [True]) (snd (rateLimiter example_env lock_request (queued_store [True]))) \<and>
   thrown (queued_store [True])
     (snd (admission_layer example_env example_draws lock_request (queued_store [True]))) \<and>
   fst (admission_layer example_env example_draws lock_request (queued_store [True]))
     = In_Waiting_Room"
  by (simp add: admission_defs eval_defs)

text \<open>
  Claim C9, amended. The middleware inside which a lock-store operation throws lets the
  request through. When an operation of the rate limiter throws, the rate limiter calls
  \<open>next()\<close>, and the layer's answer is the one of the waiting room run on the store the
  rate limiter left. When an operation of the waiting room throws, the waiting room calls
  \<open>next()\<close>; so a throw in the waiting-room part of the layer lets the request through to
  the reservation path.
\<close>

theorem admission_fails_open:
  "(rateLimiter env req r = (out1, r1) \<and> thrown r r1 \<longrightarrow>
      out1 = Next None \<and> admission_layer env d req r = smartWaitingRoom env d req r1)
 \<and> (smartWaitingRoom env d req r = (out2, r2) \<and> thrown r r2 \<longrightarrow> out2 = Next None)
 \<and> (rateLimiter env req r = (out1, r1) \<and> admission_layer env d req r = (out, r') \<and> thrown r1 r' \<longrightarrow>
      out = Next None)"
proof -
  have limiter: "out1 = Next None \<and> admission_layer env d req r = smartWaitingRoom env d req r1"
    if a: "rateLimiter env req r = (out1, r1)" "thrown r r1"
  proof -
    from fails_open_thrown [OF rateLimiter_fails_open [OF a(1)] a(2)]
    have "out1 = Next None" .
    with a(1) show ?thesis by (simp add: admission_layer_def)
  qed
  have room: "out2 = Next None" if a: "smartWaitingRoom env d req r = (out2, r2)" "thrown r r2"
    using fails_open_thrown [OF smartWaitingRoom_fails_open [OF a(1)] a(2)] .
  have layer: "out = Next None"
    if a: "rateLimiter env req r = (out1, r1)" "admission_layer env d req r = (out, r')" "thrown r1 r'"
  proof (cases out1)
    case (Next t)
    with a(1,2) have "smartWaitingRoom env d req r1 = (out, r')" by (simp add: admission_layer_def)
    from fails_open_thrown [OF smartWaitingRoom_fails_open [OF this] a(3)] show ?thesis .
  next
    case Too_Many_Requests
    with a(1,2) have "r' = r1" by (auto simp: admission_layer_def)
    with a(3) show ?thesis by (simp add: thrown_def consumed_def)
  next
    case In_Waiting_Room
    with a(1,2) have "r' = r1" by (auto simp: admission_layer_def)
    with a(3) show ?thesis by (simp add: thrown_def consumed_def)
  next
    case (Placed_In_Waiting_Room t)
    with a(1,2) have "r' = r1" by (auto simp: admission_layer_def)
    with a(3) show ?thesis by (simp add: thrown_def consumed_def)
  qed
  show ?thesis using limiter room layer by blast
qed

theorem admission_fails_open_witness:
  "thrown (queued_store [True]) (snd (rateLimiter example_env lock_request (queued_store [True]))) \<and>
   fst (rateLimiter example_env lock_request (queued_store [True])) = Next None \<and>
   thrown (queued_store [False, True])
     (snd (smartWaitingRoom example_env example_draws lock_request (queued_store [False, True]))) \<and>
   fst (smartWaitingRoom example_env example_draws lock_request (queued_store [False, True])) = Next None \<and>
   thrown (snd (rateLimiter example_env lock_request (queued_store [False, False, False, False, True])))
     (snd (admission_layer example_env example_draws lock_request
             (queued_store [False, False, False, False, True]))) \<and>
   fst (admission_layer example_env example_draws lock_request
          (queued_store [False, False, False, False, True])) = Next None"
proof -
  let ?r1 = "queued_store [True]"
  let ?r2 = "queued_store [False, True]"
  let ?r3 = "queued_store [False, False, False, False, True]"
  obtain o1 s1 where run1: "rateLimiter example_env lock_request ?r1 = (o1, s1)"
    by (metis prod.exhaust)
  obtain o2 s2 where run2: "smartWaitingRoom example_env example_draws lock_request ?r2 = (o2, s2)"
    by (metis prod.exhaust)
  obtain o3 s3 where run3: "rateLimiter example_env lock_request ?r3 = (o3, s3)"
    by (metis prod.exhaust)
  obtain o4 s4 where run4: "admission_layer example_env example_draws lock_request ?r3 = (o4, s4)"
    by (metis prod.exhaust)
  have t1: "thrown ?r1 s1" using run1 by (auto simp: admission_defs eval_defs)
  have t2: "thrown ?r2 s2" using run2 by (auto simp: admission_defs eval_defs)
  have t3: "thrown s3 s4" using run3 run4 by (auto simp: admission_defs eval_defs)
  from admission_fails_open [where env = example_env and req = lock_request and r = ?r1
                                and ?out1.0 = o1 and ?r1.0 = s1] run1 t1
  have c1: "o1 = Next None" by simp
  from admission_fails_open [where env = example_env and req = lock_request and d = example_draws
                                and r = ?r2 and ?out2.0 = o2 and ?r2.0 = s2] run2 t2
  have c2: "o2 = Next None" by simp
  from admission_fails_open [where env = example_env and req = lock_request and d = example_draws
                                and r = ?r3 and ?out1.0 = o3 and ?r1.0 = s3 and out = o4 and r' = s4]
       run3 run4 t3
  have c3: "o4 = Next None" by simp
  show ?thesis using run1 run2 run3 run4 t1 t2 t3 c1 c2 c3 by simp
qed


end
